theory Spec2Isabelle
  imports Complex_Main
begin

section \<open>The JavaScript Date object\<close>

text \<open>
  \<^verbatim>\<open>backend/src/lib/plan.ts\<close> computes with dates through three functions of the
  date-fns library (\<^verbatim>\<open>parseISO\<close>, \<^verbatim>\<open>addDays\<close>, \<^verbatim>\<open>formatISO\<close>), which in turn work on
  the JavaScript \<^verbatim>\<open>Date\<close> object. Neither is part of the repository; both are modelled
  here from their published definitions: the \<^verbatim>\<open>Date\<close> object from ECMA-262, section
  "Date Objects", the three functions from the source text of date-fns.

  A \<^verbatim>\<open>Date\<close> holds a time value, an integral number of milliseconds since
  1970-01-01T00:00:00Z, or NaN (an Invalid Date): \<open>int option\<close>, with \<open>None\<close> for NaN.
  A JavaScript number that need not be integral is a \<open>rat\<close>, and \<open>rat option\<close> where it
  can be NaN. Numbers are exact; the rounding of IEEE doubles is not modelled. The
  integers of a valid \<^verbatim>\<open>Date\<close> are below 2^53, where doubles are exact as well, and a
  larger one is rejected by \<^verbatim>\<open>TimeClip\<close> either way. Rounding can show in two places
  only: where a string gives a time of day with a decimal fraction, and in the
  quotient \<^verbatim>\<open>durationDays\<close> of the planner when it is not a whole number.

  The time zone of the process is a parameter of the model (section "The local time
  zone"). The theorems that compute dates are stated for the zone UTC, where local
  midnights are a whole number of days apart; a second zone, with daylight-saving
  time, shows what changes elsewhere.
\<close>

subsection \<open>Day numbers\<close>

text \<open>
  The abstract operations of ECMA-262, section "Time Values and Time Range", on the
  day number \<^verbatim>\<open>Day(t)\<close> (days since 1970-01-01), with the clause they stand for.
  \<^verbatim>\<open>YearFromTime\<close> is specified there as the largest year starting at or before the
  time value; the executable definition used here is proved to be exactly that
  (lemmas \<open>YearFromDay_spec\<close> and \<open>YearFromDay_unique\<close>).
\<close>

definition DaysInYear :: "int \<Rightarrow> int" where
  "DaysInYear y =
     (if y mod 4 \<noteq> 0 then 365
      else if y mod 100 \<noteq> 0 then 366
      else if y mod 400 \<noteq> 0 then 365
      else 366)"

definition DayFromYear :: "int \<Rightarrow> int" where
  "DayFromYear y =
     365 * (y - 1970) + (y - 1969) div 4 - (y - 1901) div 100 + (y - 1601) div 400"

definition YearFromDay :: "int \<Rightarrow> int" where
  "YearFromDay k =
     (let y = 1970 + (400 * k) div 146097 in
      if k < DayFromYear y then y - 1
      else if DayFromYear (y + 1) \<le> k then y + 1
      else y)"

definition InLeapYear :: "int \<Rightarrow> int" where
  "InLeapYear k = (if DaysInYear (YearFromDay k) = 366 then 1 else 0)"

definition DayWithinYear :: "int \<Rightarrow> int" where
  "DayWithinYear k = k - DayFromYear (YearFromDay k)"

text \<open>\<^verbatim>\<open>MonthFromTime\<close>: the month index, 0 for January to 11 for December.\<close>

definition MonthFromDay :: "int \<Rightarrow> int" where
  "MonthFromDay k =
     (let d = DayWithinYear k; l = InLeapYear k in
      if d < 31 then 0
      else if d < 59 + l then 1
      else if d < 90 + l then 2
      else if d < 120 + l then 3
      else if d < 151 + l then 4
      else if d < 181 + l then 5
      else if d < 212 + l then 6
      else if d < 243 + l then 7
      else if d < 273 + l then 8
      else if d < 304 + l then 9
      else if d < 334 + l then 10
      else 11)"

text \<open>\<^verbatim>\<open>DateFromTime\<close>: the day of the month, from 1.\<close>

definition DateFromDay :: "int \<Rightarrow> int" where
  "DateFromDay k =
     (let d = DayWithinYear k; l = InLeapYear k; m = MonthFromDay k in
      if m = 0 then d + 1
      else if m = 1 then d - 30
      else if m = 2 then d - 58 - l
      else if m = 3 then d - 89 - l
      else if m = 4 then d - 119 - l
      else if m = 5 then d - 150 - l
      else if m = 6 then d - 180 - l
      else if m = 7 then d - 211 - l
      else if m = 8 then d - 242 - l
      else if m = 9 then d - 272 - l
      else if m = 10 then d - 303 - l
      else d - 333 - l)"

text \<open>
  \<^verbatim>\<open>MakeDay(year, month, date)\<close>: the day number of the first of the month
  \<open>month mod 12\<close> of the year \<open>year + month div 12\<close>, plus \<open>date - 1\<close>.
  \<open>DaysBeforeMonth\<close> is the day within the year on which a month starts. The arguments
  are integers here: the one caller that passes a fraction, \<^verbatim>\<open>setDate\<close>, applies the
  truncation that \<^verbatim>\<open>MakeDay\<close> starts with (\<^verbatim>\<open>ToIntegerOrInfinity\<close>) itself. \<^verbatim>\<open>MakeDay\<close>
  may answer NaN for a year far outside the range of time values; every year it is
  given here is that of a valid \<^verbatim>\<open>Date\<close> or one written with at most six digits, and
  where it is outside that range the day number is rejected by \<^verbatim>\<open>TimeClip\<close>.
\<close>

definition DaysBeforeMonth :: "int \<Rightarrow> int \<Rightarrow> int" where
  "DaysBeforeMonth ym mn =
     (let l = (if DaysInYear ym = 366 then 1 else 0) in
      if mn = 0 then 0
      else if mn = 1 then 31
      else if mn = 2 then 59 + l
      else if mn = 3 then 90 + l
      else if mn = 4 then 120 + l
      else if mn = 5 then 151 + l
      else if mn = 6 then 181 + l
      else if mn = 7 then 212 + l
      else if mn = 8 then 243 + l
      else if mn = 9 then 273 + l
      else if mn = 10 then 304 + l
      else 334 + l)"

definition MakeDay :: "int \<Rightarrow> int \<Rightarrow> int \<Rightarrow> int" where
  "MakeDay year month date =
     (let ym = year + month div 12; mn = month mod 12 in
      DayFromYear ym + DaysBeforeMonth ym mn + date - 1)"

subsection \<open>Time values\<close>

definition msPerDay :: int where
  "msPerDay = 86400000"

definition msPerHour :: int where
  "msPerHour = 3600000"

definition msPerMinute :: int where
  "msPerMinute = 60000"

definition Day :: "int \<Rightarrow> int" where
  "Day t = t div msPerDay"

definition TimeWithinDay :: "int \<Rightarrow> int" where
  "TimeWithinDay t = t mod msPerDay"

definition YearFromTime :: "int \<Rightarrow> int" where
  "YearFromTime t = YearFromDay (Day t)"

definition MonthFromTime :: "int \<Rightarrow> int" where
  "MonthFromTime t = MonthFromDay (Day t)"

definition DateFromTime :: "int \<Rightarrow> int" where
  "DateFromTime t = DateFromDay (Day t)"

text \<open>\<^verbatim>\<open>WeekDay\<close>: 0 for Sunday to 6 for Saturday; 1970-01-01 was a Thursday.\<close>

definition WeekDay :: "int \<Rightarrow> int" where
  "WeekDay t = (Day t + 4) mod 7"

definition HourFromTime :: "int \<Rightarrow> int" where
  "HourFromTime t = (t div msPerHour) mod 24"

definition MinFromTime :: "int \<Rightarrow> int" where
  "MinFromTime t = (t div msPerMinute) mod 60"

definition SecFromTime :: "int \<Rightarrow> int" where
  "SecFromTime t = (t div 1000) mod 60"

definition msFromTime :: "int \<Rightarrow> int" where
  "msFromTime t = t mod 1000"

definition MakeTime :: "int \<Rightarrow> int \<Rightarrow> int \<Rightarrow> int \<Rightarrow> int" where
  "MakeTime hours minutes seconds millis =
     hours * msPerHour + minutes * msPerMinute + seconds * 1000 + millis"

definition MakeDate :: "int \<Rightarrow> int \<Rightarrow> int" where
  "MakeDate day time = day * msPerDay + time"

text \<open>\<^verbatim>\<open>ToIntegerOrInfinity\<close> truncates towards zero.\<close>

definition ToIntegerOrInfinity :: "rat \<Rightarrow> int" where
  "ToIntegerOrInfinity x = (if x < 0 then \<lceil>x\<rceil> else \<lfloor>x\<rfloor>)"

text \<open>
  \<^verbatim>\<open>TimeClip\<close>: a number beyond 8.64e15 milliseconds, that is 100,000,000 days, either
  side of the epoch is not a time value, the \<^verbatim>\<open>Date\<close> becomes invalid; any other number
  is truncated to an integer. \<^verbatim>\<open>new Date(value)\<close> is \<^verbatim>\<open>TimeClip(value)\<close>.
\<close>

type_synonym Date = "int option"

definition TimeClip :: "rat \<Rightarrow> Date" where
  "TimeClip time = (if \<bar>time\<bar> > 8640000000000000 then None else Some (ToIntegerOrInfinity time))"

subsection \<open>The local time zone\<close>

text \<open>
  The time zone of the process is a parameter of the model. A zone is the offset of
  local time from UTC in milliseconds that is in force at first, and the list of its
  transitions in ascending order: the instant of the transition (a time value) and the
  offset in force from then on.

  \<open>offsetAt\<close> is the offset in force at an instant (\<^verbatim>\<open>LocalTZA(t, true)\<close>), \<open>offsetOfLocal\<close>
  the offset by which a local time is read (\<^verbatim>\<open>LocalTZA(t, false)\<close>): a local time that a
  transition skips or repeats is read with the offset before the transition, as
  ECMA-262 prescribes. \<^verbatim>\<open>LocalTime(t)\<close> turns an instant into local time, \<^verbatim>\<open>UTC(t)\<close> a local
  time into an instant.
\<close>

datatype TimeZone = TimeZone int "(int \<times> int) list"

fun offsetAt :: "int \<Rightarrow> (int \<times> int) list \<Rightarrow> int \<Rightarrow> int" where
  "offsetAt off [] t = off"
| "offsetAt off ((s, off') # r) t = (if t < s then off else offsetAt off' r t)"

fun offsetOfLocal :: "int \<Rightarrow> (int \<times> int) list \<Rightarrow> int \<Rightarrow> int" where
  "offsetOfLocal off [] t = off"
| "offsetOfLocal off ((s, off') # r) t =
     (if t < s + max off off' then off else offsetOfLocal off' r t)"

definition LocalTZA :: "TimeZone \<Rightarrow> int \<Rightarrow> bool \<Rightarrow> int" where
  "LocalTZA tz t isUTC =
     (case tz of TimeZone off trs \<Rightarrow> if isUTC then offsetAt off trs t else offsetOfLocal off trs t)"

definition LocalTime :: "TimeZone \<Rightarrow> int \<Rightarrow> int" where
  "LocalTime tz t = t + LocalTZA tz t True"

definition UTC :: "TimeZone \<Rightarrow> int \<Rightarrow> int" where
  "UTC tz t = t - LocalTZA tz t False"

text \<open>
  Two zones: UTC, and America/New_York with its rules of 2024, five hours behind UTC
  until 2024-03-10T07:00:00Z (02:00 local time), four hours behind until
  2024-11-03T06:00:00Z, five hours behind after that.
\<close>

definition zoneUTC :: TimeZone where
  "zoneUTC = TimeZone 0 []"

definition zoneNewYork :: TimeZone where
  "zoneNewYork = TimeZone (- 18000000) [(1710054000000, - 14400000), (1730613600000, - 18000000)]"

subsection \<open>Methods of Date\<close>

text \<open>
  The methods the library calls, on the time value of the \<^verbatim>\<open>Date\<close>; each returns the new
  time value. A setter that reads the time value finds +0 in place of NaN where
  ECMA-262 says so (\<^verbatim>\<open>setFullYear\<close>, \<^verbatim>\<open>setUTCFullYear\<close>), and leaves an Invalid Date
  invalid otherwise.
\<close>

definition setUTCFullYear :: "Date \<Rightarrow> int \<Rightarrow> int \<Rightarrow> int \<Rightarrow> Date" where
  "setUTCFullYear date year month dt =
     (let t = (case date of None \<Rightarrow> 0 | Some tv \<Rightarrow> tv) in
      TimeClip (of_int (MakeDate (MakeDay year month dt) (TimeWithinDay t))))"

definition setUTCDate :: "Date \<Rightarrow> int \<Rightarrow> Date" where
  "setUTCDate date dt =
     (case date of
        None \<Rightarrow> None
      | Some t \<Rightarrow>
          TimeClip (of_int (MakeDate (MakeDay (YearFromTime t) (MonthFromTime t) dt)
                                     (TimeWithinDay t))))"

definition setFullYear :: "TimeZone \<Rightarrow> Date \<Rightarrow> int \<Rightarrow> int \<Rightarrow> int \<Rightarrow> Date" where
  "setFullYear tz date year month dt =
     (let t = (case date of None \<Rightarrow> 0 | Some tv \<Rightarrow> LocalTime tz tv) in
      TimeClip (of_int (UTC tz (MakeDate (MakeDay year month dt) (TimeWithinDay t)))))"

definition setHours :: "TimeZone \<Rightarrow> Date \<Rightarrow> int \<Rightarrow> int \<Rightarrow> int \<Rightarrow> int \<Rightarrow> Date" where
  "setHours tz date hours minutes seconds millis =
     (case date of
        None \<Rightarrow> None
      | Some tv \<Rightarrow>
          (let t = LocalTime tz tv in
           TimeClip (of_int (UTC tz (MakeDate (Day t) (MakeTime hours minutes seconds millis))))))"

text \<open>
  \<^verbatim>\<open>setDate(date)\<close>: the day is rebuilt by \<^verbatim>\<open>MakeDay\<close> from the local year, the local month
  and the argument truncated to an integer; the local time of day is kept.
\<close>

definition setDate :: "TimeZone \<Rightarrow> Date \<Rightarrow> rat \<Rightarrow> Date" where
  "setDate tz date dt =
     (case date of
        None \<Rightarrow> None
      | Some tv \<Rightarrow>
          (let t = LocalTime tz tv in
           TimeClip (of_int (UTC tz (MakeDate
             (MakeDay (YearFromTime t) (MonthFromTime t) (ToIntegerOrInfinity dt))
             (TimeWithinDay t))))))"


section \<open>The date-fns functions used by the planner\<close>

text \<open>
  \<^verbatim>\<open>parseISO\<close>, \<^verbatim>\<open>addDays\<close> and \<^verbatim>\<open>formatISO\<close> as date-fns 3 defines them, each with the
  helper functions and the regular expressions it uses.
\<close>

datatype error = Error string | RangeError string

text \<open>
  \<open>Error msg\<close> is a JavaScript \<^verbatim>\<open>Error\<close> thrown with the message \<open>msg\<close>,
  \<open>RangeError msg\<close> a \<^verbatim>\<open>RangeError\<close>. A function that can throw returns \<open>error + 'a\<close>.
  Strings are lists of 8-bit characters.
\<close>

subsection \<open>Decimal numbers\<close>

definition digitChar :: "nat \<Rightarrow> char" where
  "digitChar n = char_of (48 + n)"

text \<open>\<^verbatim>\<open>Number.prototype.toString\<close> on a non-negative integer.\<close>

fun toStringNat :: "nat \<Rightarrow> string" where
  "toStringNat n =
     (if n < 10 then [digitChar n] else toStringNat (n div 10) @ [digitChar (n mod 10)])"

declare toStringNat.simps [simp del]

definition padStart :: "nat \<Rightarrow> char \<Rightarrow> string \<Rightarrow> string" where
  "padStart targetLength c s = replicate (targetLength - length s) c @ s"

text \<open>
  \<^verbatim>\<open>addLeadingZeros(number, targetLength)\<close> of date-fns: the sign, then the absolute
  value padded with zeros to the target length.
\<close>

definition addLeadingZeros :: "int \<Rightarrow> nat \<Rightarrow> string" where
  "addLeadingZeros number targetLength =
     (if number < 0 then ''-'' else '''')
     @ padStart targetLength (CHR ''0'') (toStringNat (nat \<bar>number\<bar>))"

definition isDigit :: "char \<Rightarrow> bool" where
  "isDigit c = (48 \<le> (of_char c :: nat) \<and> (of_char c :: nat) \<le> 57)"

text \<open>
  \<^verbatim>\<open>parseInt\<close> and \<^verbatim>\<open>parseFloat\<close>, on the strings the regular expressions of \<^verbatim>\<open>parseISO\<close>
  hand them: decimal digits after an optional sign for \<^verbatim>\<open>parseInt\<close>; two digits, and
  possibly a point and more digits, for \<^verbatim>\<open>parseFloat\<close>. \<open>parseDigits\<close> is the value of a
  string of digits.
\<close>

definition parseDigits :: "string \<Rightarrow> int" where
  "parseDigits s = foldl (\<lambda>n c. 10 * n + (int (of_char c) - 48)) 0 s"

definition parseInt :: "string \<Rightarrow> int" where
  "parseInt s =
     (if take 1 s = ''-'' then - parseDigits (drop 1 s)
      else if take 1 s = ''+'' then parseDigits (drop 1 s)
      else parseDigits s)"

definition parseFloat :: "string \<Rightarrow> rat" where
  "parseFloat s =
     of_int (parseDigits (take 2 s))
     + of_int (parseDigits (drop 3 s)) / of_int (10 ^ length (drop 3 s))"

subsection \<open>String methods and regular expressions\<close>

text \<open>
  \<^verbatim>\<open>String.prototype.split\<close> with a regular expression that matches one character of a
  class: the pieces between the matching characters.
\<close>

fun splitOn :: "(char \<Rightarrow> bool) \<Rightarrow> string \<Rightarrow> string list" where
  "splitOn p [] = [[]]"
| "splitOn p (c # cs) =
     (case splitOn p cs of
        [] \<Rightarrow> []
      | w # ws \<Rightarrow> if p c then [] # w # ws else (c # w) # ws)"

fun startsWith :: "string \<Rightarrow> string \<Rightarrow> bool" where
  "startsWith s [] = True"
| "startsWith [] (c # cs) = False"
| "startsWith (x # xs) (c # cs) = (x = c \<and> startsWith xs cs)"

text \<open>
  \<^verbatim>\<open>String.prototype.replace(pattern, "")\<close> with a string as the pattern: the first
  occurrence of the pattern is removed.
\<close>

fun removeFirst :: "string \<Rightarrow> string \<Rightarrow> string" where
  "removeFirst pat [] = []"
| "removeFirst pat (c # cs) =
     (if startsWith (c # cs) pat then drop (length pat) (c # cs)
      else c # removeFirst pat cs)"

text \<open>
  The patterns of \<^verbatim>\<open>parseISO\<close>: \<^verbatim>\<open>dateTimeDelimiter = /[T ]/\<close>,
  \<^verbatim>\<open>timeZoneDelimiter = /[Z ]/i\<close> and \<^verbatim>\<open>timezone = /([Z+-].*)$/\<close>. The last one
  matches the leftmost suffix that starts with \<^verbatim>\<open>Z\<close>, \<^verbatim>\<open>+\<close> or \<^verbatim>\<open>-\<close> and holds no line
  terminator (the dot does not match one).
\<close>

definition dateTimeDelimiter :: "char \<Rightarrow> bool" where
  "dateTimeDelimiter c = (c = CHR ''T'' \<or> c = CHR '' '')"

definition timeZoneDelimiter :: "char \<Rightarrow> bool" where
  "timeZoneDelimiter c = (c = CHR ''Z'' \<or> c = CHR ''z'' \<or> c = CHR '' '')"

definition lineTerminator :: "char \<Rightarrow> bool" where
  "lineTerminator c = (c = CHR 0x0A \<or> c = CHR 0x0D)"

fun timezonePattern :: "string \<Rightarrow> string option" where
  "timezonePattern [] = None"
| "timezonePattern (c # cs) =
     (if (c = CHR ''Z'' \<or> c = CHR ''+'' \<or> c = CHR ''-'') \<and> \<not> list_ex lineTerminator cs
      then Some (c # cs)
      else timezonePattern cs)"

text \<open>
  \<^verbatim>\<open>dateRegex = /^-?(?:(\d{3})|(\d{2})(?:-?(\d{2}))?|W(\d{2})(?:-?(\d{1}))?|)$/\<close>: after an
  optional hyphen, three digits (the day of the year), or two digits (the month) and
  possibly two more (the day), or a week and possibly a day of the week, or nothing.
  The result holds the five groups; \<open>None\<close> is a group that took no part.
\<close>

definition digits :: "string \<Rightarrow> bool" where
  "digits s = list_all isDigit s"

definition dateRegex ::
  "string \<Rightarrow> (string option \<times> string option \<times> string option \<times> string option \<times> string option) option"
where
  "dateRegex dateString =
     (let s = (if take 1 dateString = ''-'' then drop 1 dateString else dateString) in
      if length s = 3 \<and> digits s then Some (Some s, None, None, None, None)
      else if length s = 2 \<and> digits s then Some (None, Some s, None, None, None)
      else if length s = 4 \<and> digits s
        then Some (None, Some (take 2 s), Some (drop 2 s), None, None)
      else if length s = 5 \<and> digits (take 2 s) \<and> s ! 2 = CHR ''-'' \<and> digits (drop 3 s)
        then Some (None, Some (take 2 s), Some (drop 3 s), None, None)
      else if length s = 3 \<and> s ! 0 = CHR ''W'' \<and> digits (drop 1 s)
        then Some (None, None, None, Some (drop 1 s), None)
      else if length s = 4 \<and> s ! 0 = CHR ''W'' \<and> digits (drop 1 s)
        then Some (None, None, None, Some (take 2 (drop 1 s)), Some (drop 3 s))
      else if length s = 5 \<and> s ! 0 = CHR ''W'' \<and> digits (take 2 (drop 1 s))
              \<and> s ! 3 = CHR ''-'' \<and> digits (drop 4 s)
        then Some (None, None, None, Some (take 2 (drop 1 s)), Some (drop 4 s))
      else if s = [] then Some (None, None, None, None, None)
      else None)"

text \<open>
  \<^verbatim>\<open>timeRegex = /^(\d{2}(?:[.,]\d*)?)(?::?(\d{2}(?:[.,]\d*)?))?(?::?(\d{2}(?:[.,]\d*)?))?$/\<close>:
  up to three units of two digits with an optional decimal fraction, separated by
  optional colons. The matcher backtracks, and the first match it finds counts.
  \<open>unitMatches s\<close> lists the ways one unit matches a prefix of \<open>s\<close>, in the order in
  which the matcher tries them (the fraction with as many digits as there are first,
  without the fraction last), each with the rest of the string; \<open>optUnitMatches\<close> does
  the same for an optional unit after an optional colon.
\<close>

definition unitMatches :: "string \<Rightarrow> (string \<times> string) list" where
  "unitMatches s =
     (if length s \<ge> 2 \<and> digits (take 2 s) then
        (if length s \<ge> 3 \<and> (s ! 2 = CHR ''.'' \<or> s ! 2 = CHR '','') then
           map (\<lambda>k. (take (3 + k) s, drop (3 + k) s))
               (rev [0 ..< Suc (length (takeWhile isDigit (drop 3 s)))])
         else [])
        @ [(take 2 s, drop 2 s)]
      else [])"

definition optUnitMatches :: "string \<Rightarrow> (string option \<times> string) list" where
  "optUnitMatches s =
     map (\<lambda>(u, r). (Some u, r))
         ((if take 1 s = '':'' then unitMatches (drop 1 s) else []) @ unitMatches s)
     @ [(None, s)]"

definition timeRegex :: "string \<Rightarrow> (string \<times> string option \<times> string option) option" where
  "timeRegex timeString =
     (case [(h, m, s). (h, r1) \<leftarrow> unitMatches timeString, (m, r2) \<leftarrow> optUnitMatches r1,
                       (s, r3) \<leftarrow> optUnitMatches r2, r3 = []] of
        [] \<Rightarrow> None
      | c # cs \<Rightarrow> Some c)"

text \<open>
  \<^verbatim>\<open>timezoneRegex = /^([+-])(\d{2})(?::?(\d{2}))?$/\<close>: a sign, two digits (the hours)
  and possibly two more (the minutes), after an optional colon.
\<close>

definition timezoneRegex :: "string \<Rightarrow> (char \<times> string \<times> string option) option" where
  "timezoneRegex s =
     (if length s \<ge> 3 \<and> (s ! 0 = CHR ''+'' \<or> s ! 0 = CHR ''-'') \<and> digits (take 2 (drop 1 s)) then
        (if length s = 3 then Some (s ! 0, take 2 (drop 1 s), None)
         else if length s = 5 \<and> digits (drop 3 s) then Some (s ! 0, take 2 (drop 1 s), Some (drop 3 s))
         else if length s = 6 \<and> s ! 3 = CHR '':'' \<and> digits (drop 4 s)
           then Some (s ! 0, take 2 (drop 1 s), Some (drop 4 s))
         else None)
      else None)"

subsection \<open>parseISO\<close>

text \<open>
  \<^verbatim>\<open>splitDateString\<close>: the string is cut at \<^verbatim>\<open>T\<close> or a space into a date part and a time
  part, and a time zone is cut off the time part. An absent part is \<open>None\<close>.
\<close>

datatype DateStrings = DateStrings "string option" "string option" "string option"

definition splitDateString :: "string \<Rightarrow> DateStrings" where
  "splitDateString dateString =
     (let array = splitOn dateTimeDelimiter dateString in
      if length array > 2 then DateStrings None None None
      else
        (let (dateStr, timeString) =
               (if CHR '':'' \<in> set (array ! 0) then (None, Some (array ! 0))
                else if list_ex timeZoneDelimiter (array ! 0) then
                  (let d = hd (splitOn timeZoneDelimiter dateString)
                   in (Some d, Some (drop (length d) dateString)))
                else (Some (array ! 0), if length array = 2 then Some (array ! 1) else None))
         in case timeString of
              None \<Rightarrow> DateStrings dateStr None None
            | Some ts \<Rightarrow>
                if ts = [] then DateStrings dateStr None None
                else (case timezonePattern ts of
                        Some token \<Rightarrow> DateStrings dateStr (Some (removeFirst token ts)) (Some token)
                      | None \<Rightarrow> DateStrings dateStr (Some ts) None)))"

text \<open>
  \<^verbatim>\<open>parseYear\<close>, with \<^verbatim>\<open>additionalDigits = 2\<close>, the default: the regular expression is
  \<^verbatim>\<open>/^(?:(\d{4}|[+-]\d{6})|(\d{2}|[+-]\d{4})$)/\<close>, a year of four digits or of a sign and six
  digits at the start of the string, or a century of two digits or of a sign and four
  digits that is the whole string. The result is the year (\<open>None\<close> is NaN, for no
  match) and the rest of the string.
\<close>

definition isSign :: "char \<Rightarrow> bool" where
  "isSign c = (c = CHR ''+'' \<or> c = CHR ''-'')"

definition parseYear :: "string \<Rightarrow> int option \<times> string" where
  "parseYear dateString =
     (if length dateString \<ge> 4 \<and> digits (take 4 dateString)
        then (Some (parseInt (take 4 dateString)), drop 4 dateString)
      else if length dateString \<ge> 7 \<and> isSign (dateString ! 0) \<and> digits (take 6 (drop 1 dateString))
        then (Some (parseInt (take 7 dateString)), drop 7 dateString)
      else if length dateString = 2 \<and> digits dateString
        then (Some (parseInt dateString * 100), [])
      else if length dateString = 5 \<and> isSign (dateString ! 0) \<and> digits (drop 1 dateString)
        then (Some (parseInt dateString * 100), [])
      else (None, []))"

definition isLeapYearIndex :: "int \<Rightarrow> bool" where
  "isLeapYearIndex year = (year mod 400 = 0 \<or> (year mod 4 = 0 \<and> year mod 100 \<noteq> 0))"

text \<open>
  The table \<^verbatim>\<open>daysInMonths = [31, null, 31, 30, 31, 30, 31, 31, 30, 31, 30, 31]\<close>;
  \<open>None\<close> is the \<^verbatim>\<open>null\<close> entry of February (and any index outside the table).
\<close>

definition daysInMonths :: "int \<Rightarrow> int option" where
  "daysInMonths month =
     (if month = 0 \<or> month = 2 \<or> month = 4 \<or> month = 6 \<or> month = 7 \<or> month = 9 \<or> month = 11
      then Some 31
      else if month = 3 \<or> month = 5 \<or> month = 8 \<or> month = 10 then Some 30
      else None)"

definition validateDate :: "int \<Rightarrow> int \<Rightarrow> int \<Rightarrow> bool" where
  "validateDate year month date =
     (month \<ge> 0 \<and> month \<le> 11 \<and> date \<ge> 1 \<and>
      date \<le> (case daysInMonths month of
                  Some n \<Rightarrow> n
                | None \<Rightarrow> (if isLeapYearIndex year then 29 else 28)))"

definition validateDayOfYearDate :: "int \<Rightarrow> int \<Rightarrow> bool" where
  "validateDayOfYearDate year dayOfYear =
     (dayOfYear \<ge> 1 \<and> dayOfYear \<le> (if isLeapYearIndex year then 366 else 365))"

definition validateWeekDate :: "int \<Rightarrow> int \<Rightarrow> int \<Rightarrow> bool" where
  "validateWeekDate year week day = (week \<ge> 1 \<and> week \<le> 53 \<and> day \<ge> 0 \<and> day \<le> 6)"

definition validateTime :: "rat \<Rightarrow> rat \<Rightarrow> rat \<Rightarrow> bool" where
  "validateTime hours minutes seconds =
     (if hours = 24 then minutes = 0 \<and> seconds = 0
      else seconds \<ge> 0 \<and> seconds < 60 \<and> minutes \<ge> 0 \<and> minutes < 60 \<and> hours \<ge> 0 \<and> hours < 25)"

definition validateTimezone :: "int \<Rightarrow> int \<Rightarrow> bool" where
  "validateTimezone hours minutes = (minutes \<ge> 0 \<and> minutes \<le> 59)"

text \<open>\<^verbatim>\<open>parseDateUnit(value)\<close> is \<^verbatim>\<open>value ? parseInt(value) : 1\<close>.\<close>

definition parseDateUnit :: "string option \<Rightarrow> int" where
  "parseDateUnit v = (case v of None \<Rightarrow> 1 | Some s \<Rightarrow> parseInt s)"

text \<open>
  \<^verbatim>\<open>dayOfISOWeekYear\<close>: from 4 January, which lies in the first ISO week, to the day of
  the week asked for.
\<close>

definition dayOfISOWeekYear :: "int \<Rightarrow> int \<Rightarrow> int \<Rightarrow> Date" where
  "dayOfISOWeekYear isoWeekYear week day =
     (case setUTCFullYear (Some 0) isoWeekYear 0 4 of
        None \<Rightarrow> None
      | Some t \<Rightarrow>
          (let fourthOfJanuaryDay = (if WeekDay t = 0 then 7 else WeekDay t);
               diff = (week - 1) * 7 + day + 1 - fourthOfJanuaryDay
           in setUTCDate (Some t) (DateFromTime t + diff)))"

text \<open>
  \<^verbatim>\<open>parseDate\<close>: the date part after the year, as a \<^verbatim>\<open>Date\<close> at midnight UTC. When the
  year is NaN, the rest of the string is empty, the checks pass and
  \<^verbatim>\<open>setUTCFullYear(NaN, 0, 1)\<close> makes the \<^verbatim>\<open>Date\<close> invalid.
\<close>

definition parseDate :: "string \<Rightarrow> int option \<Rightarrow> Date" where
  "parseDate dateString yr =
     (case yr of
        None \<Rightarrow> None
      | Some year \<Rightarrow>
          (case dateRegex dateString of
             None \<Rightarrow> None
           | Some (c1, c2, c3, c4, c5) \<Rightarrow>
               (let isWeekDate = (c4 \<noteq> None);
                    dayOfYear = parseDateUnit c1;
                    month = parseDateUnit c2 - 1;
                    day = parseDateUnit c3;
                    week = parseDateUnit c4;
                    dayOfWeek = parseDateUnit c5 - 1
                in if isWeekDate then
                     (if \<not> validateWeekDate year week dayOfWeek then None
                      else dayOfISOWeekYear year week dayOfWeek)
                   else if \<not> validateDate year month day \<or> \<not> validateDayOfYearDate year dayOfYear
                     then None
                   else setUTCFullYear (Some 0) year month (max dayOfYear day))))"

text \<open>
  \<^verbatim>\<open>parseTimeUnit(value)\<close> is \<^verbatim>\<open>(value && parseFloat(value.replace(",", "."))) || 0\<close>, and
  \<^verbatim>\<open>parseTime\<close> gives the time of day in milliseconds, or NaN.
\<close>

definition parseTimeUnit :: "string option \<Rightarrow> rat" where
  "parseTimeUnit v = (case v of None \<Rightarrow> 0 | Some s \<Rightarrow> parseFloat s)"

definition parseTime :: "string \<Rightarrow> rat option" where
  "parseTime timeString =
     (case timeRegex timeString of
        None \<Rightarrow> None
      | Some (c1, c2, c3) \<Rightarrow>
          (let hours = parseTimeUnit (Some c1);
               minutes = parseTimeUnit c2;
               seconds = parseTimeUnit c3
           in if \<not> validateTime hours minutes seconds then None
              else Some (hours * of_int msPerHour + minutes * of_int msPerMinute + seconds * 1000)))"

text \<open>
  \<^verbatim>\<open>parseTimezone\<close>: the offset to add in milliseconds, or NaN. A time zone that is not
  \<^verbatim>\<open>Z\<close> and does not match \<^verbatim>\<open>timezoneRegex\<close> counts as no offset.
\<close>

definition parseTimezone :: "string \<Rightarrow> int option" where
  "parseTimezone timezoneString =
     (if timezoneString = ''Z'' then Some 0
      else
        (case timezoneRegex timezoneString of
           None \<Rightarrow> Some 0
         | Some (c1, c2, c3) \<Rightarrow>
             (let sign = (if c1 = CHR ''+'' then - 1 else 1);
                  hours = parseInt c2;
                  minutes = (case c3 of None \<Rightarrow> 0 | Some s \<Rightarrow> parseInt s)
              in if \<not> validateTimezone hours minutes then None
                 else Some (sign * (hours * msPerHour + minutes * msPerMinute)))))"

text \<open>
  \<^verbatim>\<open>parseISO\<close>. With a time zone in the string the result is the instant written. Without
  one the string is read as local time: the fields of the instant it would be in UTC
  are put into a new \<^verbatim>\<open>Date\<close> by \<^verbatim>\<open>setFullYear\<close> and \<^verbatim>\<open>setHours\<close>. (The fields of an
  Invalid Date are NaN, and so is the \<^verbatim>\<open>Date\<close> set from them.)
\<close>

definition parseISO :: "TimeZone \<Rightarrow> string \<Rightarrow> Date" where
  "parseISO tz argument =
     (case splitDateString argument of
        DateStrings dateStr timeStr timezoneStr \<Rightarrow>
          (let date = (case dateStr of
                         None \<Rightarrow> None
                       | Some ds \<Rightarrow>
                           if ds = [] then None
                           else (case parseYear ds of
                                   (year, restDateString) \<Rightarrow> parseDate restDateString year))
           in case date of
                None \<Rightarrow> None
              | Some timestamp \<Rightarrow>
                  (case (case timeStr of
                           None \<Rightarrow> Some 0
                         | Some ts \<Rightarrow> if ts = [] then Some 0 else parseTime ts) of
                     None \<Rightarrow> None
                   | Some time \<Rightarrow>
                       (case timezoneStr of
                          Some zs \<Rightarrow>
                            (case parseTimezone zs of
                               None \<Rightarrow> None
                             | Some offset \<Rightarrow> TimeClip (of_int timestamp + time + of_int offset))
                        | None \<Rightarrow>
                            (case TimeClip (of_int timestamp + time) of
                               None \<Rightarrow> None
                             | Some dirtyDate \<Rightarrow>
                                 setHours tz
                                   (setFullYear tz (Some 0) (YearFromTime dirtyDate)
                                      (MonthFromTime dirtyDate) (DateFromTime dirtyDate))
                                   (HourFromTime dirtyDate) (MinFromTime dirtyDate)
                                   (SecFromTime dirtyDate) (msFromTime dirtyDate))))))"

subsection \<open>addDays and formatISO\<close>

text \<open>
  \<^verbatim>\<open>addDays(date, amount)\<close>: an Invalid Date for the amount NaN, the date itself for the
  amount 0, and otherwise \<^verbatim>\<open>date.setDate(date.getDate() + amount)\<close>. (Versions of
  date-fns before 3 truncate the amount to an integer first; the result is the same for
  an integer and for an amount that is not negative, and the planner passes no other.)
\<close>

definition addDays :: "TimeZone \<Rightarrow> Date \<Rightarrow> rat option \<Rightarrow> Date" where
  "addDays tz date amount =
     (case amount of
        None \<Rightarrow> None
      | Some a \<Rightarrow>
          if a = 0 then date
          else (case date of
                  None \<Rightarrow> None
                | Some tv \<Rightarrow> setDate tz date (of_int (DateFromTime (LocalTime tz tv)) + a)))"

text \<open>
  \<^verbatim>\<open>formatISO(date, { representation: "date" })\<close> throws
  \<^verbatim>\<open>RangeError("Invalid time value")\<close> on an Invalid Date, and otherwise prints the local
  year, month and day with leading zeros.
\<close>

definition formatISO :: "TimeZone \<Rightarrow> Date \<Rightarrow> error + string" where
  "formatISO tz date =
     (case date of
        None \<Rightarrow> Inl (RangeError ''Invalid time value'')
      | Some tv \<Rightarrow>
          (let t = LocalTime tz tv;
               day = addLeadingZeros (DateFromTime t) 2;
               month = addLeadingZeros (MonthFromTime t + 1) 2;
               year = addLeadingZeros (YearFromTime t) 4
           in Inr (year @ ''-'' @ month @ ''-'' @ day)))"


section \<open>JavaScript string functions\<close>

text \<open>\<^verbatim>\<open>toLowerCase\<close> is modelled on ASCII letters.\<close>

definition toLowerCaseChar :: "char \<Rightarrow> char" where
  "toLowerCaseChar c =
     (let n = (of_char c :: nat) in if 65 \<le> n \<and> n \<le> 90 then char_of (n + 32) else c)"

definition toLowerCase :: "string \<Rightarrow> string" where
  "toLowerCase s = map toLowerCaseChar s"

text \<open>\<^verbatim>\<open>String.prototype.includes\<close>: the search string occurs somewhere in the string.\<close>

fun str_includes :: "string \<Rightarrow> string \<Rightarrow> bool" where
  "str_includes [] t = (t = [])"
| "str_includes (x # xs) t = (startsWith (x # xs) t \<or> str_includes xs t)"


section \<open>The data model (types.ts)\<close>

text \<open>
  The fields \<^verbatim>\<open>id\<close> and \<^verbatim>\<open>end\<close> are written \<open>id'\<close> and \<open>end'\<close>. An optional field is
  an \<open>option\<close>.
\<close>

record Task =
  id' :: string
  name :: string
  start :: string
  end' :: string
  dependsOn :: "string list option"
  assignee :: "string option"

record Plan =
  tasks :: "Task list"

datatype Mode = forward | backward

text \<open>
  The fields of an intent, in the order of \<^verbatim>\<open>types.ts\<close>:
  \<open>shift_task_dates target delta_days mode\<close>, \<open>extend_task target delta_days\<close>,
  \<open>create_task name start end dependsOn assignee\<close>, \<open>move_milestone target to_date\<close>,
  \<open>shift_phase target delta_days\<close>.
\<close>

datatype Intent =
    shift_task_dates string int Mode
  | extend_task string int
  | create_task string string string "string list option" "string option"
  | move_milestone string string
  | shift_phase string int

datatype Change =
    is_update: update (taskId: string) (before: Task) (after: Task)
  | is_create: create (task: Task)

record PlanDiff =
  changes :: "Change list"


section \<open>The planner (lib/plan.ts)\<close>

text \<open>
  Every function of the planner that computes with dates takes the time zone of the
  process, \<open>tz\<close>, as its first argument. The amounts of days are the integers
  \<^verbatim>\<open>delta_days\<close> of an intent, which the schema restricts to integers
  (\<^verbatim>\<open>z.number().int()\<close>), and the quotient \<^verbatim>\<open>durationDays\<close>, which need not be one.
\<close>

definition shiftDates :: "TimeZone \<Rightarrow> Task \<Rightarrow> int \<Rightarrow> error + Task" where
  "shiftDates tz t delta =
     (case formatISO tz (addDays tz (parseISO tz (start t)) (Some (of_int delta))) of
        Inl e \<Rightarrow> Inl e
      | Inr s \<Rightarrow>
          (case formatISO tz (addDays tz (parseISO tz (end' t)) (Some (of_int delta))) of
             Inl e \<Rightarrow> Inl e
           | Inr e' \<Rightarrow> Inr (t\<lparr>start := s, end' := e'\<rparr>)))"

definition findByName :: "Task list \<Rightarrow> string \<Rightarrow> Task option" where
  "findByName ts n = List.find (\<lambda>t. toLowerCase (name t) = toLowerCase n) ts"

text \<open>
  The constant \<^verbatim>\<open>durationDays\<close> of the \<^verbatim>\<open>move_milestone\<close> case: the difference of the
  two time values in milliseconds, divided by \<^verbatim>\<open>1000 * 60 * 60 * 24\<close>; the quotient is not
  rounded. \<open>None\<close> is NaN, the result when a date does not parse.
\<close>

definition durationDays :: "TimeZone \<Rightarrow> Task \<Rightarrow> rat option" where
  "durationDays tz t =
     (case parseISO tz (end' t) of
        None \<Rightarrow> None
      | Some endTime \<Rightarrow>
          (case parseISO tz (start t) of
             None \<Rightarrow> None
           | Some startTime \<Rightarrow> Some (of_int (endTime - startTime) / (1000 * 60 * 60 * 24))))"

text \<open>The loop of the \<^verbatim>\<open>shift_phase\<close> case over the matched tasks.\<close>

fun shiftPhaseTasks :: "TimeZone \<Rightarrow> Task list \<Rightarrow> int \<Rightarrow> error + Change list" where
  "shiftPhaseTasks tz [] delta = Inr []"
| "shiftPhaseTasks tz (t # ts) delta =
     (case shiftDates tz t delta of
        Inl e \<Rightarrow> Inl e
      | Inr a \<Rightarrow>
          (case shiftPhaseTasks tz ts delta of
             Inl e \<Rightarrow> Inl e
           | Inr cs \<Rightarrow> Inr (update (id' t) t a # cs)))"

text \<open>
  The \<^verbatim>\<open>switch\<close> of \<^verbatim>\<open>applyIntent\<close>, which builds the change list or throws. It is the
  same text in both versions of the function. \<open>rnd\<close> is the value of
  \<^verbatim>\<open>Math.random().toString(36).slice(2, 9)\<close>, up to seven characters drawn by the
  random number generator; \<open>ts\<close> is the copy \<^verbatim>\<open>[...plan.tasks]\<close>. In the
  \<^verbatim>\<open>move_milestone\<close> case \<^verbatim>\<open>Math.max(0, durationDays)\<close> is NaN when \<^verbatim>\<open>durationDays\<close> is.
\<close>

definition intentChanges ::
  "TimeZone \<Rightarrow> string \<Rightarrow> Task list \<Rightarrow> Intent \<Rightarrow> error + Change list"
where
  "intentChanges tz rnd ts intent =
     (case intent of
        shift_task_dates target delta_days mode \<Rightarrow>
          (case findByName ts target of
             None \<Rightarrow> Inl (Error (''Task not found: '' @ target))
           | Some t \<Rightarrow>
               (let delta = (if mode = forward then delta_days else - delta_days) in
                case shiftDates tz t delta of
                  Inl e \<Rightarrow> Inl e
                | Inr a \<Rightarrow> Inr [update (id' t) t a]))
      | extend_task target delta_days \<Rightarrow>
          (case findByName ts target of
             None \<Rightarrow> Inl (Error (''Task not found: '' @ target))
           | Some t \<Rightarrow>
               (case formatISO tz (addDays tz (parseISO tz (end' t)) (Some (of_int delta_days))) of
                  Inl e \<Rightarrow> Inl e
                | Inr e' \<Rightarrow> Inr [update (id' t) t (t\<lparr>end' := e'\<rparr>)]))
      | create_task n s e deps a \<Rightarrow>
          Inr [create \<lparr>id' = ''t_'' @ rnd, name = n, start = s, end' = e,
                       dependsOn = deps, assignee = a\<rparr>]
      | move_milestone target to_date \<Rightarrow>
          (case findByName ts target of
             None \<Rightarrow> Inl (Error (''Milestone not found: '' @ target))
           | Some t \<Rightarrow>
               (let newEnd = addDays tz (parseISO tz to_date)
                               (map_option (max 0) (durationDays tz t))
                in case formatISO tz newEnd of
                     Inl e \<Rightarrow> Inl e
                   | Inr e' \<Rightarrow> Inr [update (id' t) t (t\<lparr>start := to_date, end' := e'\<rparr>)]))
      | shift_phase target delta_days \<Rightarrow>
          (let lowered = toLowerCase target;
               phaseTasks = filter (\<lambda>t. str_includes (toLowerCase (name t)) lowered) ts
           in if phaseTasks = [] then Inl (Error (''No tasks matched phase: '' @ target))
              else shiftPhaseTasks tz phaseTasks delta_days))"

text \<open>
  \<^verbatim>\<open>nextTasks\<close>: every task with an update record of its id is replaced by the
  after-task of the first such record; the created tasks are appended.
\<close>

definition nextTasks :: "Task list \<Rightarrow> Change list \<Rightarrow> Task list" where
  "nextTasks ts cs =
     map (\<lambda>t. case List.find (\<lambda>c. is_update c \<and> taskId c = id' t) cs of
                 Some upd \<Rightarrow> after upd
               | None \<Rightarrow> t) ts
     @ map task (filter is_create cs)"

text \<open>
  \<^verbatim>\<open>applyIntent\<close> of \<^verbatim>\<open>backend/src/lib/plan.ts\<close>. The result is the plan object as the
  call leaves it, and the diff returned or the error thrown. The last statement
  before the return is \<^verbatim>\<open>plan.tasks = nextTasks\<close>.
\<close>

definition applyIntent ::
  "TimeZone \<Rightarrow> string \<Rightarrow> Plan \<Rightarrow> Intent \<Rightarrow> Plan \<times> (error + PlanDiff)"
where
  "applyIntent tz rnd plan intent =
     (case intentChanges tz rnd (tasks plan) intent of
        Inl e \<Rightarrow> (plan, Inl e)
      | Inr cs \<Rightarrow> (plan\<lparr>tasks := nextTasks (tasks plan) cs\<rparr>, Inr \<lparr>changes = cs\<rparr>))"

text \<open>
  \<^verbatim>\<open>applyIntent\<close> of the second version of the file (\<^verbatim>\<open>src/unnamed/part_000\<close>): it
  computes \<^verbatim>\<open>nextTasks\<close> as well, and returns without assigning it.
\<close>

definition applyIntent_part_000 ::
  "TimeZone \<Rightarrow> string \<Rightarrow> Plan \<Rightarrow> Intent \<Rightarrow> Plan \<times> (error + PlanDiff)"
where
  "applyIntent_part_000 tz rnd plan intent =
     (case intentChanges tz rnd (tasks plan) intent of
        Inl e \<Rightarrow> (plan, Inl e)
      | Inr cs \<Rightarrow> (let nxt = nextTasks (tasks plan) cs in (plan, Inr \<lparr>changes = cs\<rparr>)))"


section \<open>The calendar, as a reference\<close>

text \<open>
  The Gregorian calendar stated on its own terms: a date is a year, a month from 1 to
  12 and a day of the month; the day after and the day before a date follow the
  lengths of the months and the leap-year rule. "Plus \<open>n\<close> calendar days" is \<open>n\<close> steps
  to the next day, or \<open>-n\<close> steps to the previous one.
\<close>

type_synonym ymd = "int \<times> int \<times> int"

definition leap_year :: "int \<Rightarrow> bool" where
  "leap_year y = (y mod 4 = 0 \<and> (y mod 100 \<noteq> 0 \<or> y mod 400 = 0))"

definition days_in_month :: "int \<Rightarrow> int \<Rightarrow> int" where
  "days_in_month y m =
     (if m = 2 then (if leap_year y then 29 else 28)
      else if m = 4 \<or> m = 6 \<or> m = 9 \<or> m = 11 then 30
      else 31)"

fun valid_date :: "ymd \<Rightarrow> bool" where
  "valid_date (y, m, d) = (1 \<le> m \<and> m \<le> 12 \<and> 1 \<le> d \<and> d \<le> days_in_month y m)"

fun next_day :: "ymd \<Rightarrow> ymd" where
  "next_day (y, m, d) =
     (if d < days_in_month y m then (y, m, d + 1)
      else if m < 12 then (y, m + 1, 1)
      else (y + 1, 1, 1))"

fun prev_day :: "ymd \<Rightarrow> ymd" where
  "prev_day (y, m, d) =
     (if 1 < d then (y, m, d - 1)
      else if 1 < m then (y, m - 1, days_in_month y (m - 1))
      else (y - 1, 12, 31))"

definition plus_days :: "ymd \<Rightarrow> int \<Rightarrow> ymd" where
  "plus_days c n = (if 0 \<le> n then (next_day ^^ nat n) c else (prev_day ^^ nat (- n)) c)"

text \<open>The day number of a date, and the date of a day number, as a \<^verbatim>\<open>Date\<close> has them.\<close>

fun day_number :: "ymd \<Rightarrow> int" where
  "day_number (y, m, d) = MakeDay y (m - 1) d"

definition civil :: "int \<Rightarrow> ymd" where
  "civil k = (YearFromDay k, MonthFromDay k + 1, DateFromDay k)"

text \<open>
  The ISO 8601 extended calendar-date string \<^verbatim>\<open>YYYY-MM-DD\<close> of a date in the years 0 to
  9999, the date such a string reads as, and the strings that are well-formed: those
  that are the ISO string of the valid date they read as.
\<close>

definition two_digits :: "int \<Rightarrow> string" where
  "two_digits n = [digitChar (nat (n div 10)), digitChar (nat (n mod 10))]"

definition four_digits :: "int \<Rightarrow> string" where
  "four_digits n = two_digits (n div 100) @ two_digits (n mod 100)"

fun iso_date :: "ymd \<Rightarrow> string" where
  "iso_date (y, m, d) = four_digits y @ ''-'' @ two_digits m @ ''-'' @ two_digits d"

definition read_date :: "string \<Rightarrow> ymd" where
  "read_date s =
     (parseDigits (take 4 s), parseDigits (take 2 (drop 5 s)), parseDigits (take 2 (drop 8 s)))"

definition calendar_date :: "string \<Rightarrow> bool" where
  "calendar_date s =
     (valid_date (read_date s) \<and> 0 \<le> fst (read_date s) \<and> fst (read_date s) \<le> 9999
      \<and> s = iso_date (read_date s))"

text \<open>
  What \<^verbatim>\<open>formatISO\<close> prints for a date: the ISO string for the years 0 to 9999, more
  digits or a sign outside them.
\<close>

fun print_date :: "ymd \<Rightarrow> string" where
  "print_date (y, m, d) =
     addLeadingZeros y 4 @ ''-'' @ addLeadingZeros m 2 @ ''-'' @ addLeadingZeros d 2"

text \<open>A date is representable when a \<^verbatim>\<open>Date\<close> can hold it.\<close>

definition representable :: "ymd \<Rightarrow> bool" where
  "representable c = (\<bar>day_number c\<bar> \<le> 100000000)"

text \<open>
  A task shifted by \<open>n\<close> calendar days, and the tasks for which the shift is defined:
  both dates well-formed, both shifted dates representable.
\<close>

definition shifted :: "Task \<Rightarrow> int \<Rightarrow> Task" where
  "shifted t n =
     t\<lparr>start := print_date (plus_days (read_date (start t)) n),
       end' := print_date (plus_days (read_date (end' t)) n)\<rparr>"

definition shiftable :: "Task \<Rightarrow> int \<Rightarrow> bool" where
  "shiftable t n =
     (calendar_date (start t) \<and> calendar_date (end' t)
      \<and> representable (plus_days (read_date (start t)) n)
      \<and> representable (plus_days (read_date (end' t)) n))"

definition year4 :: "ymd \<Rightarrow> bool" where
  "year4 c = (0 \<le> fst c \<and> fst c \<le> 9999)"

text \<open>The number of days from one date to another.\<close>

definition days_between :: "ymd \<Rightarrow> ymd \<Rightarrow> int" where
  "days_between c1 c2 = day_number c2 - day_number c1"

text \<open>
  Trimming, as the specification words the phase match ("trimmed"): white space removed
  at both ends. The planner itself does not call it.
\<close>

definition isSpaceChar :: "char \<Rightarrow> bool" where
  "isSpaceChar c = (c = CHR '' '' \<or> c = CHR 0x09 \<or> c = CHR 0x0A \<or> c = CHR 0x0D)"

definition trim_spec :: "string \<Rightarrow> string" where
  "trim_spec s = rev (dropWhile isSpaceChar (rev (dropWhile isSpaceChar s)))"




section \<open>Sample tasks\<close>

definition taskDesign :: Task where
  "taskDesign = \<lparr>id' = ''t1'', name = ''Design'', start = ''2024-03-10'', end' = ''2024-03-20'',
     dependsOn = None, assignee = Some ''Ana''\<rparr>"

definition taskDesignBack5 :: Task where
  "taskDesignBack5 = \<lparr>id' = ''t1'', name = ''Design'', start = ''2024-03-05'', end' = ''2024-03-15'',
     dependsOn = None, assignee = Some ''Ana''\<rparr>"

definition taskWinter :: Task where
  "taskWinter = \<lparr>id' = ''t2'', name = ''Winter'', start = ''2024-01-31'', end' = ''2024-02-28'',
     dependsOn = Some [''t1''], assignee = None\<rparr>"

definition taskLast :: Task where
  "taskLast = \<lparr>id' = ''t3'', name = ''Last'', start = ''9999-12-31'', end' = ''9999-12-31'',
     dependsOn = None, assignee = None\<rparr>"


definition taskDesignReview :: Task where
  "taskDesignReview = \<lparr>id' = ''t5'', name = ''Design Review'', start = ''2024-03-21'',
     end' = ''2024-03-22'', dependsOn = None, assignee = None\<rparr>"

definition taskUIDesign :: Task where
  "taskUIDesign = \<lparr>id' = ''t6'', name = ''UI Design'', start = ''2024-03-25'',
     end' = ''2024-03-29'', dependsOn = None, assignee = None\<rparr>"

definition taskProcurement :: Task where
  "taskProcurement = \<lparr>id' = ''t7'', name = ''Procurement'', start = ''2024-04-01'',
     end' = ''2024-04-10'', dependsOn = None, assignee = None\<rparr>"

definition taskCreated :: Task where
  "taskCreated = \<lparr>id' = ''t_k3x9a2f'', name = ''Procurement'', start = ''2024-04-01'',
     end' = ''2024-04-10'', dependsOn = None, assignee = None\<rparr>"

definition taskSpring :: Task where
  "taskSpring = \<lparr>id' = ''t8'', name = ''Spring'', start = ''2024-03-09'', end' = ''2024-03-11'',
     dependsOn = None, assignee = None\<rparr>"
section \<open>Day numbers and the calendar\<close>

subsection \<open>Integer division\<close>


lemma div_bracket:
  fixes a c :: int
  assumes "0 < c"
  shows "c * (a div c) \<le> a" and "a < c * (a div c) + c"
proof -
  have "a = c * (a div c) + a mod c" by simp
  moreover have "0 \<le> a mod c" "a mod c < c" using assms by simp_all
  ultimately show "c * (a div c) \<le> a" and "a < c * (a div c) + c" by linarith+
qed

lemma div_succ:
  fixes x c :: int
  assumes c: "1 < c"
  shows "(x + 1) div c = x div c + (if (x + 1) mod c = 0 then 1 else 0)"
proof -
  define q where "q = x div c"
  define r where "r = x mod c"
  have x: "x = c * q + r" and r: "0 \<le> r" "r < c"
    using c by (simp_all add: q_def r_def)
  show ?thesis
  proof (cases "r + 1 < c")
    case True
    have e: "x + 1 = c * q + (r + 1)" using x by simp
    have "(x + 1) div c = q" using int_div_pos_eq[OF e] r True by simp
    moreover have "(x + 1) mod c = r + 1" using int_mod_pos_eq[OF e] r True by simp
    ultimately show ?thesis using r by (simp add: q_def)
  next
    case False
    then have rc: "r + 1 = c" using r by simp
    have e: "x + 1 = c * (q + 1) + 0" using x rc by (simp add: algebra_simps)
    have "(x + 1) div c = q + 1" using int_div_pos_eq[OF e] c by simp
    moreover have "(x + 1) mod c = 0" using int_mod_pos_eq[OF e] c by simp
    ultimately show ?thesis by (simp add: q_def)
  qed
qed

lemma mod_shift:
  fixes y :: int
  shows "(y - 1968) mod 4 = y mod 4" "(y - 1900) mod 100 = y mod 100" "(y - 1600) mod 400 = y mod 400"
  using mod_mult_self1[of y "-492" 4] mod_mult_self1[of y "-19" 100] mod_mult_self1[of y "-4" 400]
  by simp_all

lemma mod_400_100: "(y::int) mod 400 = 0 \<Longrightarrow> y mod 100 = 0"
proof -
  assume "y mod 400 = 0"
  then have "400 dvd y" by (simp add: mod_eq_0_iff_dvd)
  moreover have "(100::int) dvd 400" by simp
  ultimately have "100 dvd y" by (rule dvd_trans[rotated])
  then show ?thesis by (simp add: mod_eq_0_iff_dvd)
qed

lemma mod_100_4: "(y::int) mod 100 = 0 \<Longrightarrow> y mod 4 = 0"
proof -
  assume "y mod 100 = 0"
  then have "100 dvd y" by (simp add: mod_eq_0_iff_dvd)
  moreover have "(4::int) dvd 100" by simp
  ultimately have "4 dvd y" by (rule dvd_trans[rotated])
  then show ?thesis by (simp add: mod_eq_0_iff_dvd)
qed

lemma leap_cases:
  fixes p4 p100 p400 :: bool
  assumes "p400 \<Longrightarrow> p100" "p100 \<Longrightarrow> p4"
  shows "(if \<not> p4 then 365 else if \<not> p100 then 366 else if \<not> p400 then 365 else (366::int))
          = (if p4 \<and> (\<not> p100 \<or> p400) then 366 else 365)"
  using assms by auto

lemma DaysInYear_leap: "DaysInYear y = (if leap_year y then 366 else 365)"
  unfolding DaysInYear_def leap_year_def
  by (rule leap_cases) (erule mod_400_100, erule mod_100_4)

lemma year_step:
  fixes A B C y :: int and p4 p100 p400 :: bool
  assumes "p400 \<Longrightarrow> p100" "p100 \<Longrightarrow> p4"
  shows "365 * (y + 1 - 1970) + (A + (if p4 then 1 else 0)) - (B + (if p100 then 1 else 0))
           + (C + (if p400 then 1 else 0))
         = 365 * (y - 1970) + A - B + C
           + (if \<not> p4 then 365 else if \<not> p100 then 366 else if \<not> p400 then 365 else 366)"
  using assms by auto

lemma DayFromYear_Suc: "DayFromYear (y + 1) = DayFromYear y + DaysInYear y"
proof -
  have a: "(y + 1 - 1969) div 4 = (y - 1969) div 4 + (if y mod 4 = 0 then 1 else 0)"
    using div_succ[of 4 "y - 1969"] mod_shift(1)[of y] by (simp add: algebra_simps)
  have b: "(y + 1 - 1901) div 100 = (y - 1901) div 100 + (if y mod 100 = 0 then 1 else 0)"
    using div_succ[of 100 "y - 1901"] mod_shift(2)[of y] by (simp add: algebra_simps)
  have c: "(y + 1 - 1601) div 400 = (y - 1601) div 400 + (if y mod 400 = 0 then 1 else 0)"
    using div_succ[of 400 "y - 1601"] mod_shift(3)[of y] by (simp add: algebra_simps)
  show ?thesis
    unfolding DayFromYear_def DaysInYear_def a b c
    by (rule year_step) (erule mod_400_100, erule mod_100_4)
qed


lemma DayFromYear_lower: "146097 * y - 287811596 \<le> 400 * DayFromYear y"
proof -
  define a where "a = (y - 1969) div 4"
  define b where "b = (y - 1901) div 100"
  define c where "c = (y - 1601) div 400"
  have "4 * a \<le> y - 1969" "y - 1969 < 4 * a + 4" "100 * b \<le> y - 1901" "y - 1901 < 100 * b + 100"
    "400 * c \<le> y - 1601" "y - 1601 < 400 * c + 400"
    unfolding a_def b_def c_def by (rule div_bracket, simp)+
  then show ?thesis
    unfolding DayFromYear_def a_def[symmetric] b_def[symmetric] c_def[symmetric]
    by (simp add: algebra_simps)
qed

lemma DayFromYear_upper: "400 * DayFromYear y \<le> 146097 * y - 287810501"
proof -
  define a where "a = (y - 1969) div 4"
  define b where "b = (y - 1901) div 100"
  define c where "c = (y - 1601) div 400"
  have "4 * a \<le> y - 1969" "y - 1969 < 4 * a + 4" "100 * b \<le> y - 1901" "y - 1901 < 100 * b + 100"
    "400 * c \<le> y - 1601" "y - 1601 < 400 * c + 400"
    unfolding a_def b_def c_def by (rule div_bracket, simp)+
  then show ?thesis
    unfolding DayFromYear_def a_def[symmetric] b_def[symmetric] c_def[symmetric]
    by (simp add: algebra_simps)
qed

lemma DayFromYear_mono: "y < y' \<Longrightarrow> DayFromYear y < DayFromYear y'"
  using DayFromYear_upper[of y] DayFromYear_lower[of y'] by linarith

lemma YearFromDay_spec:
  "DayFromYear (YearFromDay k) \<le> k" "k < DayFromYear (YearFromDay k + 1)"
proof -
  define e where "e = (400 * k) div 146097"
  have e: "146097 * e \<le> 400 * k" "400 * k < 146097 * e + 146097"
    unfolding e_def by (rule div_bracket, simp)+
  have lo: "DayFromYear (1970 + e - 1) \<le> k"
    using DayFromYear_upper[of "1970 + e - 1"] e by simp
  have hi: "k < DayFromYear (1970 + e + 1 + 1)"
    using DayFromYear_lower[of "1970 + e + 1 + 1"] e by simp
  show "DayFromYear (YearFromDay k) \<le> k"
    using lo unfolding YearFromDay_def e_def[symmetric] Let_def by simp
  show "k < DayFromYear (YearFromDay k + 1)"
    using hi unfolding YearFromDay_def e_def[symmetric] Let_def by simp
qed

lemma YearFromDay_unique:
  assumes "DayFromYear y \<le> k" "k < DayFromYear (y + 1)"
  shows "YearFromDay k = y"
proof (rule ccontr)
  assume ne: "YearFromDay k \<noteq> y"
  show False
  proof (cases "YearFromDay k < y")
    case True
    then have "YearFromDay k + 1 = y \<or> YearFromDay k + 1 < y" by linarith
    then have "DayFromYear (YearFromDay k + 1) \<le> DayFromYear y"
      using DayFromYear_mono[of "YearFromDay k + 1" y] by auto
    then show False using YearFromDay_spec(2)[of k] assms(1) by linarith
  next
    case False
    then have "y + 1 = YearFromDay k \<or> y + 1 < YearFromDay k" using ne by linarith
    then have "DayFromYear (y + 1) \<le> DayFromYear (YearFromDay k)"
      using DayFromYear_mono[of "y + 1" "YearFromDay k"] by auto
    then show False using YearFromDay_spec(1)[of k] assms(2) by linarith
  qed
qed


lemma leap_flag: "(if DaysInYear y = 366 then 1 else 0 :: int) = (if leap_year y then 1 else 0)"
  by (simp add: DaysInYear_leap)

lemma month_cases:
  fixes m :: int
  assumes "1 \<le> m" "m \<le> 12"
  shows "m = 1 \<or> m = 2 \<or> m = 3 \<or> m = 4 \<or> m = 5 \<or> m = 6 \<or> m = 7 \<or> m = 8 \<or> m = 9
         \<or> m = 10 \<or> m = 11 \<or> m = 12"
  using assms by arith

lemma MakeDay_index:
  assumes "0 \<le> mi" "mi \<le> 11"
  shows "MakeDay y mi d = DayFromYear y + DaysBeforeMonth y mi + d - 1"
  using assms by (simp add: MakeDay_def Let_def)

lemma civil_day_number:
  assumes v: "valid_date (y, m, d)"
  shows "civil (day_number (y, m, d)) = (y, m, d)"
proof -
  define l :: int where "l = (if leap_year y then 1 else 0)"
  have l: "l = 0 \<or> l = 1" by (simp add: l_def)
  have fl: "(if DaysInYear y = 366 then 1 else 0) = l" by (simp add: l_def leap_flag)
  have diy: "DaysInYear y = 365 + l" by (simp add: DaysInYear_leap l_def)
  have m: "m = 1 \<or> m = 2 \<or> m = 3 \<or> m = 4 \<or> m = 5 \<or> m = 6 \<or> m = 7 \<or> m = 8 \<or> m = 9
         \<or> m = 10 \<or> m = 11 \<or> m = 12"
    using v by (intro month_cases) simp_all
  have d1: "1 \<le> d" using v by simp
  have dim: "d \<le> (if m = 2 then 28 + l else if m = 4 \<or> m = 6 \<or> m = 9 \<or> m = 11 then 30 else 31)"
    using v by (auto simp: days_in_month_def l_def split: if_splits)
  define k where "k = day_number (y, m, d)"
  define b where "b = DaysBeforeMonth y (m - 1)"
  have k: "k = DayFromYear y + b + d - 1"
    using v by (simp add: k_def b_def MakeDay_index)
  have b: "b = (if m = 1 then 0 else if m = 2 then 31 else if m = 3 then 59 + l
      else if m = 4 then 90 + l else if m = 5 then 120 + l else if m = 6 then 151 + l
      else if m = 7 then 181 + l else if m = 8 then 212 + l else if m = 9 then 243 + l
      else if m = 10 then 273 + l else if m = 11 then 304 + l else 334 + l)"
    using m unfolding b_def DaysBeforeMonth_def fl Let_def by auto
  have r0: "0 \<le> b + d - 1" unfolding b using m l d1 by (elim disjE) simp_all
  have r1: "b + d - 1 < 365 + l" unfolding b using m l dim by (elim disjE) simp_all
  have Y: "YearFromDay k = y"
    by (rule YearFromDay_unique) (use k r0 r1 DayFromYear_Suc[of y] diy in linarith)+
  have dw: "DayWithinYear k = b + d - 1" unfolding DayWithinYear_def Y using k by simp
  have il: "InLeapYear k = l" unfolding InLeapYear_def Y by (rule fl)
  have M: "MonthFromDay k = m - 1"
    unfolding MonthFromDay_def dw il Let_def b using m l d1 dim by (elim disjE) simp_all
  have D: "DateFromDay k = d"
    unfolding DateFromDay_def dw il M Let_def b using m by (elim disjE) simp_all
  show ?thesis
    unfolding k_def[symmetric] civil_def Y M D by simp
qed

lemma day_number_civil: "day_number (civil k) = k" and valid_civil: "valid_date (civil k)"
proof -
  define y where "y = YearFromDay k"
  define l :: int where "l = (if leap_year y then 1 else 0)"
  define w where "w = DayWithinYear k"
  have l: "l = 0 \<or> l = 1" by (simp add: l_def)
  have fl: "(if DaysInYear y = 366 then 1 else 0) = l" by (simp add: l_def leap_flag)
  have il: "InLeapYear k = l" unfolding InLeapYear_def y_def[symmetric] by (rule fl)
  have w0: "0 \<le> w" using YearFromDay_spec(1)[of k] by (simp add: w_def DayWithinYear_def)
  have "k < DayFromYear y + (365 + l)"
    using YearFromDay_spec(2)[of k] DayFromYear_Suc[of y]
    by (auto simp: y_def DaysInYear_leap l_def)
  then have w1: "w < 365 + l" by (simp add: w_def DayWithinYear_def y_def)
  have k: "k = DayFromYear y + w" by (simp add: w_def DayWithinYear_def y_def)
  define mi where "mi = MonthFromDay k"
  have mi: "mi = (if w < 31 then 0 else if w < 59 + l then 1 else if w < 90 + l then 2
      else if w < 120 + l then 3 else if w < 151 + l then 4 else if w < 181 + l then 5
      else if w < 212 + l then 6 else if w < 243 + l then 7 else if w < 273 + l then 8
      else if w < 304 + l then 9 else if w < 334 + l then 10 else 11)"
    unfolding mi_def MonthFromDay_def w_def[symmetric] il Let_def by (rule refl)
  have cs: "(mi = 0 \<and> w < 31) \<or> (mi = 1 \<and> 31 \<le> w \<and> w < 59 + l)
      \<or> (mi = 2 \<and> 59 + l \<le> w \<and> w < 90 + l) \<or> (mi = 3 \<and> 90 + l \<le> w \<and> w < 120 + l)
      \<or> (mi = 4 \<and> 120 + l \<le> w \<and> w < 151 + l) \<or> (mi = 5 \<and> 151 + l \<le> w \<and> w < 181 + l)
      \<or> (mi = 6 \<and> 181 + l \<le> w \<and> w < 212 + l) \<or> (mi = 7 \<and> 212 + l \<le> w \<and> w < 243 + l)
      \<or> (mi = 8 \<and> 243 + l \<le> w \<and> w < 273 + l) \<or> (mi = 9 \<and> 273 + l \<le> w \<and> w < 304 + l)
      \<or> (mi = 10 \<and> 304 + l \<le> w \<and> w < 334 + l) \<or> (mi = 11 \<and> 334 + l \<le> w)"
    using mi by (simp split: if_splits)
  have mr: "0 \<le> mi" "mi \<le> 11" using cs by auto
  define dt where "dt = DateFromDay k"
  have dt0: "dt = (if mi = 0 then w + 1 else if mi = 1 then w - 30 else if mi = 2 then w - 58 - l
      else if mi = 3 then w - 89 - l else if mi = 4 then w - 119 - l else if mi = 5 then w - 150 - l
      else if mi = 6 then w - 180 - l else if mi = 7 then w - 211 - l else if mi = 8 then w - 242 - l
      else if mi = 9 then w - 272 - l else if mi = 10 then w - 303 - l else w - 333 - l)"
    unfolding dt_def DateFromDay_def w_def[symmetric] il mi_def[symmetric] Let_def by (rule refl)
  have dt: "dt = w + 1 - DaysBeforeMonth y mi"
    unfolding dt0 DaysBeforeMonth_def fl Let_def
    using cs by (elim disjE conjE) simp_all
  have c: "civil k = (y, mi + 1, dt)" by (simp add: civil_def y_def mi_def dt_def)
  show "day_number (civil k) = k"
    unfolding c using mr by (simp add: MakeDay_index dt k)
  have dim: "days_in_month y 2 = 28 + l" by (simp add: days_in_month_def l_def)
  have "1 \<le> dt \<and> dt \<le> days_in_month y (mi + 1)"
    unfolding dt0 using cs w0 w1 l
    by (elim disjE conjE) (simp_all add: dim, simp_all add: days_in_month_def)
  then show "valid_date (civil k)"
    unfolding c using mr by simp
qed


lemma DaysBeforeMonth_step:
  assumes "1 \<le> m" "m \<le> 11"
  shows "DaysBeforeMonth y m = DaysBeforeMonth y (m - 1) + days_in_month y m"
proof -
  have m: "m = 1 \<or> m = 2 \<or> m = 3 \<or> m = 4 \<or> m = 5 \<or> m = 6 \<or> m = 7 \<or> m = 8 \<or> m = 9
         \<or> m = 10 \<or> m = 11 \<or> m = 12"
    using assms by (intro month_cases) simp_all
  show ?thesis
    unfolding DaysBeforeMonth_def leap_flag Let_def days_in_month_def
    using m assms(2) by (elim disjE) simp_all
qed

lemma DaysBeforeMonth_first: "DaysBeforeMonth y 0 = 0"
  by (simp add: DaysBeforeMonth_def)

lemma DaysBeforeMonth_last: "DaysBeforeMonth y 11 + 31 = DaysInYear y"
  by (simp add: DaysBeforeMonth_def DaysInYear_leap)

lemma days_in_month_pos: "1 \<le> days_in_month y m"
  by (simp add: days_in_month_def)

lemma days_in_month_12: "days_in_month y 12 = 31"
  by (simp add: days_in_month_def)

lemma next_day_number:
  assumes v: "valid_date c"
  shows "day_number (next_day c) = day_number c + 1" and "valid_date (next_day c)"
proof -
  obtain y m d where c: "c = (y, m, d)" by (cases c)
  have m: "1 \<le> m" "m \<le> 12" and d: "1 \<le> d" "d \<le> days_in_month y m"
    using v by (simp_all add: c)
  consider (a) "d < days_in_month y m" | (b) "d = days_in_month y m" "m < 12"
    | (e) "d = days_in_month y m" "m = 12"
    using d(2) m(2) by linarith
  then have "day_number (next_day c) = day_number c + 1 \<and> valid_date (next_day c)"
  proof cases
    case a
    then show ?thesis using m d by (simp add: c MakeDay_def Let_def)
  next
    case b
    then show ?thesis
      using m d DaysBeforeMonth_step[of m y] days_in_month_pos[of y "m + 1"]
      by (simp add: c MakeDay_index)
  next
    case e
    then show ?thesis
      using DayFromYear_Suc[of y] DaysBeforeMonth_last[of y] days_in_month_pos[of "y + 1" 1]
      by (simp add: c MakeDay_index DaysBeforeMonth_first days_in_month_12)
  qed
  then show "day_number (next_day c) = day_number c + 1" and "valid_date (next_day c)"
    by simp_all
qed

lemma prev_day_number:
  assumes v: "valid_date c"
  shows "day_number (prev_day c) = day_number c - 1" and "valid_date (prev_day c)"
proof -
  obtain y m d where c: "c = (y, m, d)" by (cases c)
  have m: "1 \<le> m" "m \<le> 12" and d: "1 \<le> d" "d \<le> days_in_month y m"
    using v by (simp_all add: c)
  consider (a) "1 < d" | (b) "d = 1" "1 < m" | (e) "d = 1" "m = 1"
    using d(1) m(1) by linarith
  then have "day_number (prev_day c) = day_number c - 1 \<and> valid_date (prev_day c)"
  proof cases
    case a
    then show ?thesis using m d by (simp add: c MakeDay_def Let_def)
  next
    case b
    then show ?thesis
      using m DaysBeforeMonth_step[of "m - 1" y] days_in_month_pos[of y "m - 1"]
      by (simp add: c MakeDay_index)
  next
    case e
    then show ?thesis
      using DayFromYear_Suc[of "y - 1"] DaysBeforeMonth_last[of "y - 1"]
      by (simp add: c MakeDay_index DaysBeforeMonth_first days_in_month_12)
  qed
  then show "day_number (prev_day c) = day_number c - 1" and "valid_date (prev_day c)"
    by simp_all
qed

lemma civil_next: "civil (k + 1) = next_day (civil k)"
proof -
  have "day_number (next_day (civil k)) = k + 1"
    using next_day_number(1)[OF valid_civil[of k]] by (simp add: day_number_civil)
  then have "civil (k + 1) = civil (day_number (next_day (civil k)))" by simp
  also have "\<dots> = next_day (civil k)"
  proof -
    obtain y m d where n: "next_day (civil k) = (y, m, d)" by (cases "next_day (civil k)")
    have "valid_date (y, m, d)" using next_day_number(2)[OF valid_civil[of k]] by (simp add: n)
    then show ?thesis unfolding n by (rule civil_day_number)
  qed
  finally show ?thesis .
qed

lemma civil_prev: "civil (k - 1) = prev_day (civil k)"
proof -
  have "day_number (prev_day (civil k)) = k - 1"
    using prev_day_number(1)[OF valid_civil[of k]] by (simp add: day_number_civil)
  then have "civil (k - 1) = civil (day_number (prev_day (civil k)))" by simp
  also have "\<dots> = prev_day (civil k)"
  proof -
    obtain y m d where n: "prev_day (civil k) = (y, m, d)" by (cases "prev_day (civil k)")
    have "valid_date (y, m, d)" using prev_day_number(2)[OF valid_civil[of k]] by (simp add: n)
    then show ?thesis unfolding n by (rule civil_day_number)
  qed
  finally show ?thesis .
qed

lemma civil_forward: "civil (k + int n) = (next_day ^^ n) (civil k)"
proof (induction n)
  case 0
  show ?case by simp
next
  case (Suc n)
  have "civil (k + int (Suc n)) = civil ((k + int n) + 1)" by (simp add: algebra_simps)
  also have "\<dots> = next_day (civil (k + int n))" by (rule civil_next)
  finally show ?case by (simp add: Suc.IH)
qed

lemma civil_backward: "civil (k - int n) = (prev_day ^^ n) (civil k)"
proof (induction n)
  case 0
  show ?case by simp
next
  case (Suc n)
  have "civil (k - int (Suc n)) = civil ((k - int n) - 1)" by (simp add: algebra_simps)
  also have "\<dots> = prev_day (civil (k - int n))" by (rule civil_prev)
  finally show ?case by (simp add: Suc.IH)
qed

lemma civil_plus: "civil (k + n) = plus_days (civil k) n"
proof (cases "0 \<le> n")
  case True
  then show ?thesis using civil_forward[of k "nat n"] by (simp add: plus_days_def)
next
  case False
  then show ?thesis using civil_backward[of k "nat (- n)"] by (simp add: plus_days_def)
qed

lemma plus_days_civil:
  assumes "valid_date c"
  shows "civil (day_number c + n) = plus_days c n"
proof -
  obtain y m d where c: "c = (y, m, d)" by (cases c)
  show ?thesis using civil_plus[of "day_number c" n] civil_day_number[of y m d] assms
    by (simp add: c)
qed


subsection \<open>Decimal strings\<close>


lemma digitChar_code: "n < 10 \<Longrightarrow> of_char (digitChar n) = 48 + n"
  by (simp add: digitChar_def)

lemma isDigit_digitChar: "n < 10 \<Longrightarrow> isDigit (digitChar n)"
  by (simp add: isDigit_def digitChar_code)

lemma digitChar_0: "digitChar 0 = CHR ''0''"
  unfolding digitChar_def by code_simp

lemma div_div_10:
  fixes n :: nat
  shows "n div 10 div 10 = n div 100" "n div 10 div 100 = n div 1000" "n div 100 div 10 = n div 1000"
  using div_mult2_eq[of n 10 10] div_mult2_eq[of n 10 100] div_mult2_eq[of n 100 10] by simp_all

lemma toStringNat_1: "n < 10 \<Longrightarrow> toStringNat n = [digitChar n]"
  by (simp add: toStringNat.simps)

lemma toStringNat_2:
  assumes "10 \<le> n" "n < 100"
  shows "toStringNat n = [digitChar (n div 10), digitChar (n mod 10)]"
proof -
  have "n div 10 < 10" using assms by simp
  then show ?thesis using assms toStringNat.simps[of n] by (simp add: toStringNat_1)
qed

lemma toStringNat_3:
  assumes "100 \<le> n" "n < 1000"
  shows "toStringNat n = [digitChar (n div 100), digitChar (n div 10 mod 10), digitChar (n mod 10)]"
proof -
  have "10 \<le> n div 10" "n div 10 < 100" using assms by simp_all
  then show ?thesis using assms toStringNat.simps[of n] by (simp add: toStringNat_2 div_div_10)
qed

lemma toStringNat_4:
  assumes "1000 \<le> n" "n < 10000"
  shows "toStringNat n = [digitChar (n div 1000), digitChar (n div 100 mod 10),
    digitChar (n div 10 mod 10), digitChar (n mod 10)]"
proof -
  have "100 \<le> n div 10" "n div 10 < 1000" using assms by simp_all
  then show ?thesis using assms toStringNat.simps[of n] by (simp add: toStringNat_3 div_div_10)
qed

lemma two_digits_nat: "two_digits (int n) = [digitChar (n div 10), digitChar (n mod 10)]"
  by (simp add: two_digits_def nat_div_distrib nat_mod_distrib)

lemma four_digits_nat:
  "four_digits (int n) = [digitChar (n div 1000), digitChar (n div 100 mod 10),
     digitChar (n mod 100 div 10), digitChar (n mod 10)]"
proof -
  have a: "int n div 100 = int (n div 100)" "int n mod 100 = int (n mod 100)"
    by (simp_all add: zdiv_int zmod_int)
  have b: "n div 100 div 10 = n div 1000" by (rule div_div_10)
  have c: "n mod 100 mod 10 = n mod 10" by (simp add: mod_mod_cancel)
  show ?thesis unfolding four_digits_def a two_digits_nat b c by simp
qed

lemma mod_100_div_10: "(n::nat) mod 100 div 10 = n div 10 mod 10"
  using mod_mult2_eq[of n 10 10] by simp

lemma addLeadingZeros_2_nat: "n < 100 \<Longrightarrow> addLeadingZeros (int n) 2 = two_digits (int n)"
proof (cases "n < 10")
  case True
  then show ?thesis by (simp add: addLeadingZeros_def padStart_def toStringNat_1 two_digits_nat digitChar_0)
next
  case False
  assume "n < 100"
  then show ?thesis using False
    by (simp add: addLeadingZeros_def padStart_def toStringNat_2 two_digits_nat)
qed

lemma addLeadingZeros_4_nat: "n < 10000 \<Longrightarrow> addLeadingZeros (int n) 4 = four_digits (int n)"
proof -
  assume n: "n < 10000"
  consider (a) "n < 10" | (b) "10 \<le> n" "n < 100" | (c) "100 \<le> n" "n < 1000" | (d) "1000 \<le> n"
    by linarith
  then show ?thesis
  proof cases
    case a
    then show ?thesis
      by (simp add: addLeadingZeros_def padStart_def toStringNat_1 four_digits_nat mod_100_div_10 digitChar_0 numeral_3_eq_3)
  next
    case b
    then show ?thesis
      by (simp add: addLeadingZeros_def padStart_def toStringNat_2 four_digits_nat mod_100_div_10 digitChar_0 numeral_2_eq_2)
  next
    case c
    then show ?thesis
      by (simp add: addLeadingZeros_def padStart_def toStringNat_3 four_digits_nat mod_100_div_10 digitChar_0)
  next
    case d
    then show ?thesis using n
      by (simp add: addLeadingZeros_def padStart_def toStringNat_4 four_digits_nat mod_100_div_10)
  qed
qed

lemma parseDigits_two_digits: "n < 100 \<Longrightarrow> parseDigits (two_digits (int n)) = int n"
proof -
  assume "n < 100"
  then have "n div 10 < 10" by simp
  then have "parseDigits (two_digits (int n)) = 10 * int (n div 10) + int (n mod 10)"
    by (simp add: parseDigits_def two_digits_nat digitChar_code)
  also have "\<dots> = int n"
    by (simp add: zdiv_int zmod_int)
  finally show ?thesis .
qed

lemma parseDigits_four_digits: "n < 10000 \<Longrightarrow> parseDigits (four_digits (int n)) = int n"
proof -
  assume "n < 10000"
  then have d: "n div 1000 < 10" by simp
  have e: "n = 1000 * (n div 1000) + 100 * (n div 100 mod 10) + 10 * (n mod 100 div 10) + n mod 10"
  proof -
    have "n = 100 * (n div 100) + n mod 100" by simp
    moreover have "n div 100 = 10 * (n div 100 div 10) + n div 100 mod 10" by simp
    moreover have "n mod 100 = 10 * (n mod 100 div 10) + n mod 100 mod 10" by simp
    moreover have "n div 100 div 10 = n div 1000" by (rule div_div_10)
    moreover have "n mod 100 mod 10 = n mod 10" by (simp add: mod_mod_cancel)
    ultimately show ?thesis by linarith
  qed
  have "parseDigits (four_digits (int n))
      = int (1000 * (n div 1000) + 100 * (n div 100 mod 10) + 10 * (n mod 100 div 10) + n mod 10)"
    using d by (simp add: parseDigits_def four_digits_nat digitChar_code)
  then show ?thesis using e by simp
qed
section \<open>Time values in the zone UTC\<close>

lemma LocalTime_UTC [simp]: "LocalTime zoneUTC t = t" "UTC zoneUTC t = t"
  by (simp_all add: LocalTime_def UTC_def LocalTZA_def zoneUTC_def)

lemma ToIntegerOrInfinity_int [simp]: "ToIntegerOrInfinity (of_int k) = k"
  by (simp add: ToIntegerOrInfinity_def)

lemma TimeClip_int: "TimeClip (of_int k) = (if \<bar>k\<bar> \<le> 8640000000000000 then Some k else None)"
proof -
  have "(\<bar>of_int k :: rat\<bar> > 8640000000000000) = (\<bar>k\<bar> > 8640000000000000)"
    by (metis of_int_abs of_int_less_iff of_int_numeral)
  then show ?thesis by (auto simp: TimeClip_def)
qed

lemma TimeClip_days:
  "TimeClip (of_int (k * msPerDay)) = (if \<bar>k\<bar> \<le> 100000000 then Some (k * msPerDay) else None)"
  "TimeClip (of_int k * of_int msPerDay) = (if \<bar>k\<bar> \<le> 100000000 then Some (k * msPerDay) else None)"
proof -
  show "TimeClip (of_int (k * msPerDay)) = (if \<bar>k\<bar> \<le> 100000000 then Some (k * msPerDay) else None)"
    unfolding TimeClip_int msPerDay_def by (simp add: abs_mult)
  then show "TimeClip (of_int k * of_int msPerDay)
      = (if \<bar>k\<bar> \<le> 100000000 then Some (k * msPerDay) else None)"
    by simp
qed

lemma Day_midnight [simp]: "Day (k * msPerDay) = k" "TimeWithinDay (k * msPerDay) = 0"
  by (simp_all add: Day_def TimeWithinDay_def msPerDay_def)

lemma midnight_fields [simp]:
  "HourFromTime (k * msPerDay) = 0" "MinFromTime (k * msPerDay) = 0"
  "SecFromTime (k * msPerDay) = 0" "msFromTime (k * msPerDay) = 0"
  "YearFromTime (k * msPerDay) = YearFromDay k" "MonthFromTime (k * msPerDay) = MonthFromDay k"
  "DateFromTime (k * msPerDay) = DateFromDay k"
proof -
  have h: "k * msPerDay = (k * 24) * msPerHour" "k * msPerDay = (k * 1440) * msPerMinute"
    "k * msPerDay = (k * 86400) * 1000"
    by (simp_all add: msPerDay_def msPerHour_def msPerMinute_def)
  show "HourFromTime (k * msPerDay) = 0" unfolding HourFromTime_def h(1) by (simp add: msPerHour_def)
  show "MinFromTime (k * msPerDay) = 0" unfolding MinFromTime_def h(2) by (simp add: msPerMinute_def)
  show "SecFromTime (k * msPerDay) = 0" unfolding SecFromTime_def h(3) by simp
  show "msFromTime (k * msPerDay) = 0" unfolding msFromTime_def h(3) by simp
qed (simp_all add: YearFromTime_def MonthFromTime_def DateFromTime_def)

lemma MakeDate_midnight [simp]: "MakeDate k 0 = k * msPerDay" "MakeTime 0 0 0 0 = 0"
  by (simp_all add: MakeDate_def MakeTime_def)

lemma MakeDay_civil: "MakeDay (YearFromDay k) (MonthFromDay k) (DateFromDay k) = k"
  using day_number_civil[of k] by (simp add: civil_def)

lemma MakeDay_add: "MakeDay y m (d + n) = MakeDay y m d + n"
  by (simp add: MakeDay_def Let_def)

lemma setUTCFullYear_epoch:
  "setUTCFullYear (Some 0) y m d = TimeClip (of_int (MakeDay y m d * msPerDay))"
  by (simp add: setUTCFullYear_def TimeWithinDay_def msPerDay_def MakeDate_def)

text \<open>
  A local midnight in the zone UTC, as \<^verbatim>\<open>parseISO\<close> builds it from the fields of the
  instant.
\<close>

lemma local_midnight_UTC:
  assumes "\<bar>k\<bar> \<le> 100000000"
  shows "setHours zoneUTC
           (setFullYear zoneUTC (Some 0) (YearFromTime (k * msPerDay)) (MonthFromTime (k * msPerDay))
              (DateFromTime (k * msPerDay)))
           (HourFromTime (k * msPerDay)) (MinFromTime (k * msPerDay))
           (SecFromTime (k * msPerDay)) (msFromTime (k * msPerDay))
         = Some (k * msPerDay)"
proof -
  have "setFullYear zoneUTC (Some 0) (YearFromDay k) (MonthFromDay k) (DateFromDay k) = Some (k * msPerDay)"
    using assms by (simp add: setFullYear_def MakeDay_civil TimeWithinDay_def TimeClip_days)
  then show ?thesis using assms by (simp add: setHours_def TimeClip_days)
qed

lemma addDays_midnight:
  assumes "\<bar>k\<bar> \<le> 100000000"
  shows "addDays zoneUTC (Some (k * msPerDay)) (Some (of_int n))
     = (if \<bar>k + n\<bar> \<le> 100000000 then Some ((k + n) * msPerDay) else None)"
proof (cases "n = 0")
  case True
  then show ?thesis using assms by (simp add: addDays_def)
next
  case False
  have t: "ToIntegerOrInfinity (of_int (DateFromDay k) + of_int n) = DateFromDay k + n"
    using ToIntegerOrInfinity_int[of "DateFromDay k + n"] by simp
  have "addDays zoneUTC (Some (k * msPerDay)) (Some (of_int n))
      = setDate zoneUTC (Some (k * msPerDay)) (of_int (DateFromDay k) + of_int n)"
    using False by (simp add: addDays_def)
  also have "\<dots> = TimeClip (of_int ((k + n) * msPerDay))"
    unfolding setDate_def t by (simp add: MakeDay_add MakeDay_civil del: of_int_add of_int_mult)
  finally show ?thesis unfolding TimeClip_days(1) .
qed

lemma formatISO_midnight: "formatISO zoneUTC (Some (k * msPerDay)) = Inr (print_date (civil k))"
  by (simp add: formatISO_def civil_def Let_def)

lemma formatISO_None: "formatISO tz None = Inl (RangeError ''Invalid time value'')"
  by (simp add: formatISO_def)

subsection \<open>Calendar-date strings\<close>

lemma leap_bool:
  fixes p4 p100 p400 :: bool
  assumes "p400 \<Longrightarrow> p100" "p100 \<Longrightarrow> p4"
  shows "(p400 \<or> (p4 \<and> \<not> p100)) = (p4 \<and> (\<not> p100 \<or> p400))"
  using assms by blast

lemma isLeapYearIndex_leap: "isLeapYearIndex y = leap_year y"
  unfolding isLeapYearIndex_def leap_year_def
  by (rule leap_bool) (erule mod_400_100, erule mod_100_4)

lemma validateDate_valid: "validateDate y (m - 1) d = valid_date (y, m, d)"
proof (cases "1 \<le> m \<and> m \<le> 12")
  case True
  then have "m = 1 \<or> m = 2 \<or> m = 3 \<or> m = 4 \<or> m = 5 \<or> m = 6 \<or> m = 7 \<or> m = 8 \<or> m = 9
         \<or> m = 10 \<or> m = 11 \<or> m = 12"
    by (intro month_cases) simp_all
  then show ?thesis
    unfolding validateDate_def daysInMonths_def days_in_month_def isLeapYearIndex_leap valid_date.simps
    by (elim disjE) simp_all
next
  case False
  then show ?thesis by (auto simp: validateDate_def)
qed

lemma day_number_bounds:
  assumes "valid_date (y, m, d)"
  shows "DayFromYear y \<le> day_number (y, m, d)" and "day_number (y, m, d) < DayFromYear (y + 1)"
proof -
  have c: "civil (day_number (y, m, d)) = (y, m, d)" using assms by (rule civil_day_number)
  then have "YearFromDay (day_number (y, m, d)) = y" by (simp add: civil_def)
  then show "DayFromYear y \<le> day_number (y, m, d)" and "day_number (y, m, d) < DayFromYear (y + 1)"
    using YearFromDay_spec[of "day_number (y, m, d)"] by simp_all
qed

lemma day_number_year4:
  assumes "valid_date (y, m, d)" "0 \<le> y" "y \<le> 9999"
  shows "- 719528 \<le> day_number (y, m, d)" and "day_number (y, m, d) \<le> 2932897"
proof -
  have "400 * DayFromYear y \<ge> - 287811596" using DayFromYear_lower[of y] assms(2) by linarith
  then show "- 719528 \<le> day_number (y, m, d)"
    using day_number_bounds(1)[OF assms(1)] by linarith
  have "400 * DayFromYear (y + 1) \<le> 146097 * 10000 - 287810501"
    using DayFromYear_upper[of "y + 1"] assms(3) by simp
  then show "day_number (y, m, d) \<le> 2932897"
    using day_number_bounds(2)[OF assms(1)] by linarith
qed

lemma iso_date_chars:
  "iso_date (int y, int m, int d) =
    [digitChar (y div 1000), digitChar (y div 100 mod 10), digitChar (y mod 100 div 10),
     digitChar (y mod 10), CHR ''-'', digitChar (m div 10), digitChar (m mod 10), CHR ''-'',
     digitChar (d div 10), digitChar (d mod 10)]"
  by (simp add: four_digits_nat two_digits_nat)

lemma isDigit_plain:
  assumes "isDigit c"
  shows "c \<noteq> CHR ''T''" "c \<noteq> CHR '' ''" "c \<noteq> CHR '':''" "c \<noteq> CHR ''Z''" "c \<noteq> CHR ''z''"
    "c \<noteq> CHR ''+''" "c \<noteq> CHR ''-''" "c \<noteq> CHR ''W''" "c \<noteq> CHR ''.''" "c \<noteq> CHR '',''"
    "\<not> dateTimeDelimiter c" "\<not> timeZoneDelimiter c"
  using assms by (auto simp: isDigit_def dateTimeDelimiter_def timeZoneDelimiter_def)

lemma isDigit_plain':
  assumes "isDigit c"
  shows "CHR ''T'' \<noteq> c" "CHR '' '' \<noteq> c" "CHR '':'' \<noteq> c" "CHR ''Z'' \<noteq> c" "CHR ''z'' \<noteq> c"
    "CHR ''+'' \<noteq> c" "CHR ''-'' \<noteq> c" "CHR ''W'' \<noteq> c" "CHR ''.'' \<noteq> c" "CHR '','' \<noteq> c"
  using isDigit_plain[OF assms] by auto

lemma parseInt_digit: "isDigit c \<Longrightarrow> parseInt (c # cs) = parseDigits (c # cs)"
  by (simp add: parseInt_def isDigit_plain)

lemma hyphen_plain: "\<not> dateTimeDelimiter CHR ''-''" "\<not> timeZoneDelimiter CHR ''-''"
  by (simp_all add: dateTimeDelimiter_def timeZoneDelimiter_def)

lemma splitDateString_ymd:
  assumes "isDigit a" "isDigit b" "isDigit c" "isDigit d" "isDigit e" "isDigit f" "isDigit g" "isDigit h"
  shows "splitDateString [a, b, c, d, CHR ''-'', e, f, CHR ''-'', g, h]
    = DateStrings (Some [a, b, c, d, CHR ''-'', e, f, CHR ''-'', g, h]) None None"
  using assms by (simp add: splitDateString_def isDigit_plain isDigit_plain' hyphen_plain Let_def)

lemma parseYear_ymd:
  assumes "isDigit a" "isDigit b" "isDigit c" "isDigit d"
  shows "parseYear (a # b # c # d # r) = (Some (parseDigits [a, b, c, d]), r)"
  using assms by (simp add: parseYear_def digits_def parseInt_digit)

lemma dateRegex_md:
  assumes "isDigit e" "isDigit f" "isDigit g" "isDigit h"
  shows "dateRegex [CHR ''-'', e, f, CHR ''-'', g, h] = Some (None, Some [e, f], Some [g, h], None, None)"
  using assms by (simp add: dateRegex_def digits_def Let_def)

lemma validateDate_day: "validateDate y m d \<Longrightarrow> 1 \<le> d"
  by (simp add: validateDate_def)

lemma parseDate_md:
  assumes "isDigit e" "isDigit f" "isDigit g" "isDigit h"
  shows "parseDate [CHR ''-'', e, f, CHR ''-'', g, h] (Some y)
    = (if validateDate y (parseDigits [e, f] - 1) (parseDigits [g, h])
       then TimeClip (of_int (MakeDay y (parseDigits [e, f] - 1) (parseDigits [g, h]) * msPerDay))
       else None)"
proof -
  have v: "validateDayOfYearDate y 1" by (simp add: validateDayOfYearDate_def)
  have m: "validateDate y (parseDigits [e, f] - 1) (parseDigits [g, h])
      \<Longrightarrow> max 1 (parseDigits [g, h]) = parseDigits [g, h]"
    using validateDate_day by fastforce
  show ?thesis
    unfolding parseDate_def dateRegex_md[OF assms]
    using v m
    by (simp add: parseDateUnit_def parseInt_digit assms setUTCFullYear_epoch Let_def
        del: of_int_mult)
qed

lemma parseISO_ymd:
  assumes "isDigit a" "isDigit b" "isDigit c" "isDigit d" "isDigit e" "isDigit f" "isDigit g" "isDigit h"
  shows "parseISO zoneUTC [a, b, c, d, CHR ''-'', e, f, CHR ''-'', g, h]
    = (if validateDate (parseDigits [a, b, c, d]) (parseDigits [e, f] - 1) (parseDigits [g, h])
          \<and> \<bar>MakeDay (parseDigits [a, b, c, d]) (parseDigits [e, f] - 1) (parseDigits [g, h])\<bar> \<le> 100000000
       then Some (MakeDay (parseDigits [a, b, c, d]) (parseDigits [e, f] - 1) (parseDigits [g, h]) * msPerDay)
       else None)"
proof -
  let ?k = "MakeDay (parseDigits [a, b, c, d]) (parseDigits [e, f] - 1) (parseDigits [g, h])"
  have l: "\<bar>?k\<bar> \<le> 100000000 \<Longrightarrow>
      setHours zoneUTC
        (setFullYear zoneUTC (Some 0) (YearFromTime (?k * msPerDay)) (MonthFromTime (?k * msPerDay))
          (DateFromTime (?k * msPerDay)))
        (HourFromTime (?k * msPerDay)) (MinFromTime (?k * msPerDay))
        (SecFromTime (?k * msPerDay)) (msFromTime (?k * msPerDay))
      = Some (?k * msPerDay)"
    by (rule local_midnight_UTC)
  show ?thesis
    using l
    by (simp add: parseISO_def splitDateString_ymd[OF assms] parseYear_ymd[OF assms(1-4)]
        parseDate_md[OF assms(5-8)] TimeClip_days del: of_int_mult midnight_fields)
qed

lemma parseISO_iso_date_nat:
  assumes v: "valid_date (int y, int m, int d)" and y: "y \<le> 9999"
  shows "parseISO zoneUTC (iso_date (int y, int m, int d))
    = Some (day_number (int y, int m, int d) * msPerDay)"
proof -
  have m: "m < 100" and d: "d < 100"
    using v by (auto simp: days_in_month_def split: if_splits)
  have dg: "y div 1000 < 10" "y div 100 mod 10 < 10" "y mod 100 div 10 < 10" "y mod 10 < 10"
    "m div 10 < 10" "m mod 10 < 10" "d div 10 < 10" "d mod 10 < 10"
    using y m d by simp_all
  have py: "parseDigits [digitChar (y div 1000), digitChar (y div 100 mod 10),
      digitChar (y mod 100 div 10), digitChar (y mod 10)] = int y"
    using parseDigits_four_digits[of y] y by (simp add: four_digits_nat)
  have pm: "parseDigits [digitChar (m div 10), digitChar (m mod 10)] = int m"
    using parseDigits_two_digits[of m] m by (simp add: two_digits_nat)
  have pd: "parseDigits [digitChar (d div 10), digitChar (d mod 10)] = int d"
    using parseDigits_two_digits[of d] d by (simp add: two_digits_nat)
  have clip: "\<bar>day_number (int y, int m, int d)\<bar> \<le> 100000000"
    using day_number_year4[OF v] y by simp
  have "parseISO zoneUTC (iso_date (int y, int m, int d))
      = (if validateDate (int y) (int m - 1) (int d)
            \<and> \<bar>MakeDay (int y) (int m - 1) (int d)\<bar> \<le> 100000000
         then Some (MakeDay (int y) (int m - 1) (int d) * msPerDay) else None)"
    unfolding iso_date_chars
    using parseISO_ymd[of "digitChar (y div 1000)" "digitChar (y div 100 mod 10)"
        "digitChar (y mod 100 div 10)" "digitChar (y mod 10)" "digitChar (m div 10)"
        "digitChar (m mod 10)" "digitChar (d div 10)" "digitChar (d mod 10)"] dg
    unfolding py pm pd by (simp add: isDigit_digitChar)
  then show ?thesis
    using v clip by (simp add: validateDate_valid)
qed

lemma read_iso_date_nat:
  assumes "y \<le> 9999" "m < 100" "d < 100"
  shows "read_date (iso_date (int y, int m, int d)) = (int y, int m, int d)"
proof -
  have py: "parseDigits [digitChar (y div 1000), digitChar (y div 100 mod 10),
      digitChar (y mod 100 div 10), digitChar (y mod 10)] = int y"
    using parseDigits_four_digits[of y] assms(1) by (simp add: four_digits_nat)
  have pm: "parseDigits [digitChar (m div 10), digitChar (m mod 10)] = int m"
    using parseDigits_two_digits[of m] assms(2) by (simp add: two_digits_nat)
  have pd: "parseDigits [digitChar (d div 10), digitChar (d mod 10)] = int d"
    using parseDigits_two_digits[of d] assms(3) by (simp add: two_digits_nat)
  show ?thesis
    unfolding iso_date_chars read_date_def by (simp add: py pm pd)
qed

lemma valid_date_small:
  assumes "valid_date (y, m, d)"
  shows "0 \<le> m" "m < 100" "0 \<le> d" "d < 100"
  using assms by (auto simp: days_in_month_def split: if_splits)

lemma parseISO_iso_date:
  assumes v: "valid_date (y, m, d)" and y: "0 \<le> y" "y \<le> 9999"
  shows "parseISO zoneUTC (iso_date (y, m, d)) = Some (day_number (y, m, d) * msPerDay)"
    and "read_date (iso_date (y, m, d)) = (y, m, d)"
proof -
  have e: "y = int (nat y)" "m = int (nat m)" "d = int (nat d)"
    using y valid_date_small[OF v] by simp_all
  have b: "nat y \<le> 9999" "nat m < 100" "nat d < 100"
    using y valid_date_small[OF v] by simp_all
  have v': "valid_date (int (nat y), int (nat m), int (nat d))" using v e by simp
  show "parseISO zoneUTC (iso_date (y, m, d)) = Some (day_number (y, m, d) * msPerDay)"
    using parseISO_iso_date_nat[OF v' b(1)] e by simp
  show "read_date (iso_date (y, m, d)) = (y, m, d)"
    using read_iso_date_nat[OF b] e by simp
qed

lemma parseISO_calendar_date:
  assumes "calendar_date s"
  shows "parseISO zoneUTC s = Some (day_number (read_date s) * msPerDay)"
proof -
  obtain y m d where r: "read_date s = (y, m, d)" by (cases "read_date s")
  have "valid_date (y, m, d)" "0 \<le> y" "y \<le> 9999" "s = iso_date (y, m, d)"
    using assms by (simp_all add: calendar_date_def r)
  then show ?thesis using parseISO_iso_date(1)[of y m d] r by simp
qed

lemma print_date_iso:
  assumes v: "valid_date (y, m, d)" and y: "0 \<le> y" "y \<le> 9999"
  shows "print_date (y, m, d) = iso_date (y, m, d)"
proof -
  have e: "y = int (nat y)" "m = int (nat m)" "d = int (nat d)"
    using y valid_date_small[OF v] by simp_all
  have b: "nat y < 10000" "nat m < 100" "nat d < 100"
    using y valid_date_small[OF v] by simp_all
  have "addLeadingZeros y 4 = four_digits y"
    using addLeadingZeros_4_nat[OF b(1)] e(1) by simp
  moreover have "addLeadingZeros m 2 = two_digits m"
    using addLeadingZeros_2_nat[OF b(2)] e(2) by simp
  moreover have "addLeadingZeros d 2 = two_digits d"
    using addLeadingZeros_2_nat[OF b(3)] e(3) by simp
  ultimately show ?thesis by simp
qed

lemma plus_days_number:
  assumes "valid_date c"
  shows "day_number (plus_days c n) = day_number c + n" and "valid_date (plus_days c n)"
  using plus_days_civil[OF assms, of n, symmetric] day_number_civil[of "day_number c + n"]
    valid_civil[of "day_number c + n"] by simp_all

section \<open>The planner's functions\<close>

lemma formatISO_addDays:
  assumes "calendar_date s"
  shows "formatISO zoneUTC (addDays zoneUTC (parseISO zoneUTC s) (Some (of_int n))) =
     (if representable (plus_days (read_date s) n)
      then Inr (print_date (plus_days (read_date s) n))
      else Inl (RangeError ''Invalid time value''))"
proof -
  have v: "valid_date (read_date s)" using assms by (simp add: calendar_date_def)
  obtain y m d where r: "read_date s = (y, m, d)" by (cases "read_date s")
  have "valid_date (y, m, d)" "0 \<le> y" "y \<le> 9999"
    using assms by (simp_all add: calendar_date_def r)
  then have b: "\<bar>day_number (read_date s)\<bar> \<le> 100000000"
    using day_number_year4[of y m d] unfolding r by linarith
  show ?thesis
    using plus_days_number(1)[OF v, of n]
    by (simp add: parseISO_calendar_date[OF assms] addDays_midnight[OF b] formatISO_midnight
        formatISO_None plus_days_civil[OF v] representable_def)
qed

lemma shiftDates_eq:
  assumes "calendar_date (start t)" "calendar_date (end' t)"
  shows "shiftDates zoneUTC t n
    = (if shiftable t n then Inr (shifted t n) else Inl (RangeError ''Invalid time value''))"
  using assms by (auto simp: shiftDates_def formatISO_addDays shiftable_def shifted_def)

lemma shiftDates_frame:
  assumes "shiftDates tz t n = Inr a"
  shows "id' a = id' t" "name a = name t" "dependsOn a = dependsOn t" "assignee a = assignee t"
  using assms by (auto simp: shiftDates_def split: sum.splits)

lemma formatISO_error: "formatISO tz d = Inl e \<Longrightarrow> e = RangeError ''Invalid time value''"
  by (auto simp: formatISO_def Let_def split: option.splits)

lemma shiftDates_error: "shiftDates tz t n = Inl e \<Longrightarrow> e = RangeError ''Invalid time value''"
  by (auto simp: shiftDates_def split: sum.splits dest: formatISO_error)

lemma shiftPhaseTasks_error:
  "shiftPhaseTasks tz ts n = Inl e \<Longrightarrow> e = RangeError ''Invalid time value''"
  by (induction ts) (auto split: sum.splits dest: shiftDates_error)

lemma shiftPhaseTasks_frame:
  assumes "shiftPhaseTasks tz ts n = Inr cs" and "c \<in> set cs"
  shows "is_update c \<and> id' (after c) = id' (before c) \<and> name (after c) = name (before c)
    \<and> dependsOn (after c) = dependsOn (before c) \<and> assignee (after c) = assignee (before c)"
  using assms
proof (induction ts arbitrary: cs)
  case Nil
  then show ?case by simp
next
  case (Cons t ts)
  obtain a cs' where a: "shiftDates tz t n = Inr a" and c': "shiftPhaseTasks tz ts n = Inr cs'"
    and cs: "cs = update (id' t) t a # cs'"
    using Cons.prems(1) by (auto split: sum.splits)
  show ?case
  proof (cases "c = update (id' t) t a")
    case True
    then show ?thesis using shiftDates_frame[OF a] by simp
  next
    case False
    then have "c \<in> set cs'" using Cons.prems(2) cs by simp
    then show ?thesis using Cons.IH[OF c'] by simp
  qed
qed

lemma shiftPhaseTasks_eq:
  assumes "\<forall>t\<in>set ts. calendar_date (start t) \<and> calendar_date (end' t)"
  shows "shiftPhaseTasks zoneUTC ts n =
     (if \<forall>t\<in>set ts. shiftable t n then Inr (map (\<lambda>t. update (id' t) t (shifted t n)) ts)
      else Inl (RangeError ''Invalid time value''))"
  using assms by (induction ts) (auto simp: shiftDates_eq)

lemma findByName_None: "findByName ts n = None \<longleftrightarrow> (\<forall>t\<in>set ts. toLowerCase (name t) \<noteq> toLowerCase n)"
  by (auto simp: findByName_def find_None_iff)

lemma findByName_first:
  assumes "ts = pre @ t # post" "\<forall>u\<in>set pre. toLowerCase (name u) \<noteq> toLowerCase n"
    "toLowerCase (name t) = toLowerCase n"
  shows "findByName ts n = Some t"
  using assms(2,3) unfolding assms(1) findByName_def by (induction pre) auto

lemma findByName_Some:
  assumes "findByName ts n = Some t"
  shows "\<exists>pre post. ts = pre @ t # post \<and> (\<forall>u\<in>set pre. toLowerCase (name u) \<noteq> toLowerCase n)
          \<and> toLowerCase (name t) = toLowerCase n"
  using assms unfolding findByName_def
proof (induction ts)
  case Nil
  then show ?case by simp
next
  case (Cons a ts)
  show ?case
  proof (cases "toLowerCase (name a) = toLowerCase n")
    case True
    then have "a = t" using Cons.prems by simp
    then show ?thesis using True by (intro exI[of _ "[]"] exI[of _ ts]) simp
  next
    case False
    then have "List.find (\<lambda>t. toLowerCase (name t) = toLowerCase n) ts = Some t"
      using Cons.prems by simp
    then obtain pre post where "ts = pre @ t # post"
      "\<forall>u\<in>set pre. toLowerCase (name u) \<noteq> toLowerCase n" "toLowerCase (name t) = toLowerCase n"
      using Cons.IH by blast
    then show ?thesis using False by (intro exI[of _ "a # pre"] exI[of _ post]) simp
  qed
qed

lemma startsWith_iff: "startsWith s t \<longleftrightarrow> (\<exists>q. s = t @ q)"
  by (induction s t rule: startsWith.induct) auto

lemma str_includes_iff: "str_includes s t \<longleftrightarrow> (\<exists>p q. s = p @ t @ q)"
proof (induction s)
  case Nil
  show ?case by auto
next
  case (Cons x xs)
  show ?case
  proof
    assume "str_includes (x # xs) t"
    then consider "startsWith (x # xs) t" | "str_includes xs t" by auto
    then show "\<exists>p q. x # xs = p @ t @ q"
    proof cases
      case 1
      then obtain q where "x # xs = t @ q" by (auto simp: startsWith_iff)
      then show ?thesis by (intro exI[of _ "[]"] exI[of _ q]) simp
    next
      case 2
      then obtain p q where "xs = p @ t @ q" using Cons.IH by blast
      then show ?thesis by (intro exI[of _ "x # p"] exI[of _ q]) simp
    qed
  next
    assume "\<exists>p q. x # xs = p @ t @ q"
    then obtain p q where e: "x # xs = p @ t @ q" by blast
    show "str_includes (x # xs) t"
    proof (cases p)
      case Nil
      then have "startsWith (x # xs) t" using e by (auto simp: startsWith_iff)
      then show ?thesis by simp
    next
      case (Cons a p')
      then have "xs = p' @ t @ q" using e by simp
      then have "str_includes xs t" using Cons.IH by blast
      then show ?thesis by simp
    qed
  qed
qed

lemma str_includes_empty: "str_includes s []"
  by (cases s) simp_all

section \<open>Evaluation on concrete dates\<close>

lemma digitChar_lits:
  "digitChar 0 = CHR ''0''" "digitChar 1 = CHR ''1''" "digitChar 2 = CHR ''2''"
  "digitChar 3 = CHR ''3''" "digitChar 4 = CHR ''4''" "digitChar 5 = CHR ''5''"
  "digitChar 6 = CHR ''6''" "digitChar 7 = CHR ''7''" "digitChar 8 = CHR ''8''"
  "digitChar 9 = CHR ''9''" "digitChar (Suc 0) = CHR ''1''"
  unfolding digitChar_def by code_simp+

lemma floor_numerals: "\<lfloor>(numeral a :: rat) / numeral b\<rfloor> = numeral a div numeral b"
  using floor_divide_of_int_eq[of "numeral a" "numeral b", where ?'a = rat] by simp

lemmas date_eval = MakeDay_def DayFromYear_def DaysBeforeMonth_def DaysInYear_def YearFromDay_def
  MonthFromDay_def DateFromDay_def DayWithinYear_def InLeapYear_def Let_def

lemmas time_eval = Day_def TimeWithinDay_def YearFromTime_def MonthFromTime_def DateFromTime_def
  HourFromTime_def MinFromTime_def SecFromTime_def msFromTime_def MakeTime_def MakeDate_def
  msPerDay_def msPerHour_def msPerMinute_def TimeClip_def ToIntegerOrInfinity_def floor_numerals

lemmas zone_eval = LocalTime_def UTC_def LocalTZA_def zoneUTC_def zoneNewYork_def

lemmas method_eval = setUTCFullYear_def setUTCDate_def setFullYear_def setHours_def setDate_def

lemmas print_eval = addLeadingZeros_def padStart_def toStringNat.simps digitChar_lits

lemmas calendar_eval = calendar_date_def read_date_def parseDigits_def days_in_month_def leap_year_def
  four_digits_def two_digits_def digitChar_lits

lemmas plus_eval = plus_days_def eval_nat_numeral days_in_month_def leap_year_def

lemmas string_eval = dateTimeDelimiter_def timeZoneDelimiter_def lineTerminator_def isSign_def
  digits_def isDigit_def parseInt_def parseDigits_def

lemmas parse_eval = parseISO_def splitDateString_def parseYear_def parseDate_def dateRegex_def
  parseDateUnit_def validateDate_def daysInMonths_def isLeapYearIndex_def validateDayOfYearDate_def
  validateWeekDate_def dayOfISOWeekYear_def WeekDay_def
  parseTime_def timeRegex_def unitMatches_def optUnitMatches_def parseTimeUnit_def parseFloat_def
  validateTime_def parseTimezone_def timezoneRegex_def validateTimezone_def

text \<open>
  The epoch, and the first and the last day of a \<^verbatim>\<open>Date\<close> (20 April 271821 BC and
  13 September 275760).
\<close>

lemma epoch_and_range:
  "civil 0 = (1970, 1, 1)" "civil (- 1) = (1969, 12, 31)" "civil 11016 = (2000, 2, 29)"
  "civil 100000000 = (275760, 9, 13)" "civil (- 100000000) = (- 271821, 4, 20)"
  "TimeClip 8640000000000000 = Some 8640000000000000" "TimeClip 8640000000000001 = None"
  "TimeClip (- 8640000000000001) = None" "WeekDay 0 = 4"
  by (simp_all add: civil_def date_eval time_eval WeekDay_def)

text \<open>
  The zone America/New_York around its two changes of 2024. One minute before
  07:00 UTC on 10 March it is 01:59 local time, at 07:00 UTC it is 03:00; the skipped
  local time 02:30 is read with the offset before the change, as 07:30 UTC, which is
  03:30 local time. On 3 November the repeated local time 01:30 is read with the
  offset before the change, as 05:30 UTC, and 02:30 as 07:30 UTC.
\<close>

lemma new_york_changes:
  "LocalTime zoneNewYork 1710053940000 = 1710035940000"
  "LocalTime zoneNewYork 1710054000000 = 1710039600000"
  "UTC zoneNewYork 1710037800000 = 1710055800000"
  "LocalTime zoneNewYork 1710055800000 = 1710041400000"
  "UTC zoneNewYork 1730597400000 = 1730611800000"
  "UTC zoneNewYork 1730601000000 = 1730619000000"
  by (simp_all add: zone_eval)


text \<open>What it does not read.\<close>

lemma parseISO_rejects:
  "parseISO tz ''10000-01-01'' = None" "parseISO tz ''-0001-12-31'' = None"
  "parseISO tz ''2024-13-45'' = None" "parseISO tz ''2024-02-30'' = None"
  "parseISO tz '''' = None" "parseISO tz ''TBD'' = None"
  by (simp_all add: parse_eval string_eval)

lemma parseISO_rejects_time: "parseISO tz ''2024-06-01T24:01'' = None"
  by (simp add: parse_eval string_eval setUTCFullYear_def date_eval time_eval)

text \<open>Evaluation of \<^verbatim>\<open>setDate\<close>, \<^verbatim>\<open>addDays\<close> and \<^verbatim>\<open>formatISO\<close>, step by step.\<close>

lemma setDate_eval:
  assumes "LocalTime tz tv = t"
    and "MakeDay (YearFromTime t) (MonthFromTime t) (ToIntegerOrInfinity dt) = k"
    and "UTC tz (MakeDate k (TimeWithinDay t)) = u"
    and "TimeClip (of_int u) = r"
  shows "setDate tz (Some tv) dt = r"
  unfolding setDate_def Let_def option.case assms ..

lemma addDays_eval:
  assumes "a \<noteq> 0" and "of_int (DateFromTime (LocalTime tz tv)) + a = dt"
    and "setDate tz (Some tv) dt = r"
  shows "addDays tz (Some tv) (Some a) = r"
  using assms by (simp add: addDays_def)

lemma formatISO_eval:
  assumes "LocalTime tz tv = t"
    and "addLeadingZeros (YearFromTime t) 4 = ys"
    and "addLeadingZeros (MonthFromTime t + 1) 2 = ms"
    and "addLeadingZeros (DateFromTime t) 2 = ds"
  shows "formatISO tz (Some tv) = Inr (ys @ ''-'' @ ms @ ''-'' @ ds)"
  unfolding formatISO_def Let_def option.case assms ..


section \<open>Shifting, back and forth\<close>

lemma year4_representable:
  assumes "valid_date c" "year4 c"
  shows "representable c"
proof -
  obtain y m d where c: "c = (y, m, d)" by (cases c)
  show ?thesis
    using day_number_year4[of y m d] assms by (simp add: c representable_def year4_def)
qed

lemma calendar_date_iso:
  assumes "valid_date c" "year4 c"
  shows "calendar_date (iso_date c)" and "read_date (iso_date c) = c"
    and "print_date c = iso_date c"
proof -
  obtain y m d where c: "c = (y, m, d)" by (cases c)
  have v: "valid_date (y, m, d)" and y: "0 \<le> y" "y \<le> 9999"
    using assms by (simp_all add: c year4_def)
  show r: "read_date (iso_date c) = c" unfolding c by (rule parseISO_iso_date(2)[OF v y])
  show "calendar_date (iso_date c)" unfolding calendar_date_def r using assms by (simp add: year4_def)
  show "print_date c = iso_date c" unfolding c by (rule print_date_iso[OF v y])
qed

lemma calendar_date_read:
  assumes "calendar_date s"
  shows "valid_date (read_date s)" "year4 (read_date s)" "iso_date (read_date s) = s"
  using assms by (simp_all add: calendar_date_def year4_def)

lemma plus_days_back:
  assumes "valid_date c"
  shows "plus_days (plus_days c n) (- n) = c"
proof -
  obtain y m d where c: "c = (y, m, d)" by (cases c)
  have "plus_days (plus_days c n) (- n) = civil (day_number (plus_days c n) + - n)"
    using plus_days_civil[OF plus_days_number(2)[OF assms, of n], of "- n"] by simp
  also have "\<dots> = civil (day_number c)" using plus_days_number(1)[OF assms, of n] by simp
  also have "\<dots> = c" using civil_day_number[of y m d] assms by (simp add: c)
  finally show ?thesis .
qed

lemma plus_days_zero: "plus_days c 0 = c"
  by (simp add: plus_days_def)

lemma plus_days_between:
  assumes "valid_date c1" "valid_date c2"
  shows "plus_days c1 (days_between c1 c2) = c2"
proof -
  obtain y m d where c: "c2 = (y, m, d)" by (cases c2)
  have "plus_days c1 (days_between c1 c2) = civil (day_number c2)"
    using plus_days_civil[OF assms(1), of "days_between c1 c2"] by (simp add: days_between_def)
  also have "\<dots> = c2" using civil_day_number[of y m d] assms(2) by (simp add: c)
  finally show ?thesis .
qed

lemma whole_days: "(of_int (e * msPerDay - s * msPerDay) :: rat) / (1000 * 60 * 60 * 24) = of_int (e - s)"
proof -
  have "e * msPerDay - s * msPerDay = (e - s) * 86400000"
    by (simp add: msPerDay_def algebra_simps)
  then show ?thesis by simp
qed

lemma durationDays_calendar:
  assumes "calendar_date (start T)" "calendar_date (end' T)"
  shows "durationDays zoneUTC T
    = Some (of_int (days_between (read_date (start T)) (read_date (end' T))))"
  unfolding durationDays_def parseISO_calendar_date[OF assms(1)] parseISO_calendar_date[OF assms(2)]
  by (simp only: option.case whole_days days_between_def)

lemma addDays_None: "addDays tz None a = None"
  by (simp add: addDays_def split: option.splits)

lemma shift_roundtrip:
  assumes cs: "calendar_date (start T)" and ce: "calendar_date (end' T)"
    and ys: "year4 (plus_days (read_date (start T)) d)"
    and ye: "year4 (plus_days (read_date (end' T)) d)"
  shows "shiftable T d" and "shiftable (shifted T d) (- d)" and "shifted (shifted T d) (- d) = T"
    and "durationDays zoneUTC (shifted T d) = durationDays zoneUTC T"
proof -
  have vs: "valid_date (read_date (start T))" and ve: "valid_date (read_date (end' T))"
    using calendar_date_read(1)[OF cs] calendar_date_read(1)[OF ce] .
  define cs' ce' where "cs' = plus_days (read_date (start T)) d"
    and "ce' = plus_days (read_date (end' T)) d"
  have vs': "valid_date cs'" and ve': "valid_date ce'"
    unfolding cs'_def ce'_def using plus_days_number(2)[OF vs] plus_days_number(2)[OF ve] by simp_all
  have ys': "year4 cs'" and ye': "year4 ce'" using ys ye by (simp_all add: cs'_def ce'_def)
  have st: "start (shifted T d) = iso_date cs'" and en: "end' (shifted T d) = iso_date ce'"
    using calendar_date_iso(3)[OF vs' ys'] calendar_date_iso(3)[OF ve' ye']
    by (simp_all add: shifted_def cs'_def ce'_def)
  show "shiftable T d"
    using cs ce year4_representable[OF vs' ys'] year4_representable[OF ve' ye']
    by (simp add: shiftable_def cs'_def ce'_def)
  have bs: "plus_days cs' (- d) = read_date (start T)"
    and be: "plus_days ce' (- d) = read_date (end' T)"
    unfolding cs'_def ce'_def using plus_days_back[OF vs] plus_days_back[OF ve] by simp_all
  show "shiftable (shifted T d) (- d)"
    unfolding shiftable_def st en
    using calendar_date_iso(1,2)[OF vs' ys'] calendar_date_iso(1,2)[OF ve' ye'] bs be
      year4_representable[OF vs calendar_date_read(2)[OF cs]]
      year4_representable[OF ve calendar_date_read(2)[OF ce]]
    by simp
  have "print_date (read_date (start T)) = start T" "print_date (read_date (end' T)) = end' T"
    using calendar_date_iso(3)[OF vs calendar_date_read(2)[OF cs]]
      calendar_date_iso(3)[OF ve calendar_date_read(2)[OF ce]]
      calendar_date_read(3)[OF cs] calendar_date_read(3)[OF ce] by simp_all
  then show "shifted (shifted T d) (- d) = T"
    using calendar_date_iso(2)[OF vs' ys'] calendar_date_iso(2)[OF ve' ye'] bs be
    unfolding shifted_def[of "shifted T d"] st en by (simp add: shifted_def)
  have "calendar_date (start (shifted T d))" "calendar_date (end' (shifted T d))"
    unfolding st en using calendar_date_iso(1)[OF vs' ys'] calendar_date_iso(1)[OF ve' ye'] by simp_all
  then have "durationDays zoneUTC (shifted T d) = Some (of_int (days_between cs' ce'))"
    using durationDays_calendar[of "shifted T d"]
      calendar_date_iso(2)[OF vs' ys'] calendar_date_iso(2)[OF ve' ye'] by (simp add: st en)
  also have "\<dots> = Some (of_int (days_between (read_date (start T)) (read_date (end' T))))"
    using plus_days_number(1)[OF vs, of d] plus_days_number(1)[OF ve, of d]
    by (simp add: days_between_def cs'_def ce'_def)
  also have "\<dots> = durationDays zoneUTC T" using durationDays_calendar[OF cs ce] by simp
  finally show "durationDays zoneUTC (shifted T d) = durationDays zoneUTC T" .
qed

lemma shift_zero:
  assumes cs: "calendar_date (start T)" and ce: "calendar_date (end' T)"
  shows "shiftable T 0" and "shifted T 0 = T"
proof -
  have vs: "valid_date (read_date (start T))" and ve: "valid_date (read_date (end' T))"
    using calendar_date_read(1)[OF cs] calendar_date_read(1)[OF ce] .
  show "shiftable T 0"
    using cs ce year4_representable[OF vs calendar_date_read(2)[OF cs]]
      year4_representable[OF ve calendar_date_read(2)[OF ce]]
    by (simp add: shiftable_def plus_days_zero)
  show "shifted T 0 = T"
    using calendar_date_iso(3)[OF vs calendar_date_read(2)[OF cs]]
      calendar_date_iso(3)[OF ve calendar_date_read(2)[OF ce]]
      calendar_date_read(3)[OF cs] calendar_date_read(3)[OF ce]
    by (simp add: shifted_def plus_days_zero)
qed


section \<open>The sample tasks, evaluated\<close>

lemma lower_samples:
  "toLowerCase ''Design'' = ''design''" "toLowerCase ''design'' = ''design''"
  "toLowerCase ''Launch'' = ''launch''" "toLowerCase ''Nonexistent'' = ''nonexistent''"
  "toLowerCase ''Design Review'' = ''design review''" "toLowerCase ''UI Design'' = ''ui design''"
  "toLowerCase ''Procurement'' = ''procurement''" "toLowerCase ''design '' = ''design ''"
  "toLowerCase '''' = ''''" "toLowerCase ''launch'' = ''launch''"
  by code_simp+

lemma read_samples:
  "read_date ''2024-03-10'' = (2024, 3, 10)" "read_date ''2024-03-20'' = (2024, 3, 20)"
  "read_date ''2024-01-31'' = (2024, 1, 31)" "read_date ''2024-02-28'' = (2024, 2, 28)"
  "read_date ''2024-05-01'' = (2024, 5, 1)" "read_date ''2024-05-04'' = (2024, 5, 4)"
  "read_date ''2024-06-01'' = (2024, 6, 1)" "read_date ''9999-12-31'' = (9999, 12, 31)"
  "read_date ''2024-03-21'' = (2024, 3, 21)" "read_date ''2024-03-22'' = (2024, 3, 22)"
  "read_date ''2024-03-25'' = (2024, 3, 25)" "read_date ''2024-03-29'' = (2024, 3, 29)"
  by (simp_all add: calendar_eval)

lemma calendar_samples:
  "calendar_date ''2024-03-10''" "calendar_date ''2024-03-20''"
  "calendar_date ''2024-01-31''" "calendar_date ''2024-02-28''"
  "calendar_date ''2024-05-01''" "calendar_date ''2024-05-04''"
  "calendar_date ''2024-06-01''" "calendar_date ''9999-12-31''"
  "calendar_date ''2024-03-21''" "calendar_date ''2024-03-22''"
  "calendar_date ''2024-03-25''" "calendar_date ''2024-03-29''"
  by (simp_all add: calendar_eval)

lemma plus_samples:
  "plus_days (2024, 3, 10) (- 5) = (2024, 3, 5)" "plus_days (2024, 3, 20) (- 5) = (2024, 3, 15)"
  "plus_days (2024, 1, 31) 1 = (2024, 2, 1)" "plus_days (2024, 2, 28) 1 = (2024, 2, 29)"
  "plus_days (2024, 6, 1) 3 = (2024, 6, 4)" "plus_days (9999, 12, 31) 1 = (10000, 1, 1)"
  "plus_days (2024, 3, 21) 7 = (2024, 3, 28)" "plus_days (2024, 3, 22) 7 = (2024, 3, 29)"
  "plus_days (2024, 3, 25) 7 = (2024, 4, 1)" "plus_days (2024, 3, 29) 7 = (2024, 4, 5)"
  by (simp_all add: plus_eval)

lemma print_samples:
  "print_date (2024, 3, 5) = ''2024-03-05''" "print_date (2024, 3, 15) = ''2024-03-15''"
  "print_date (2024, 2, 1) = ''2024-02-01''" "print_date (2024, 2, 29) = ''2024-02-29''"
  "print_date (2024, 6, 4) = ''2024-06-04''" "print_date (10000, 1, 1) = ''10000-01-01''"
  "print_date (2024, 3, 28) = ''2024-03-28''" "print_date (2024, 3, 29) = ''2024-03-29''"
  "print_date (2024, 4, 1) = ''2024-04-01''" "print_date (2024, 4, 5) = ''2024-04-05''"
  by (simp_all add: print_eval)

lemma representable_samples:
  "representable (2024, 3, 5)" "representable (2024, 3, 15)"
  "representable (2024, 2, 1)" "representable (2024, 2, 29)"
  "representable (2024, 6, 4)" "representable (10000, 1, 1)"
  "representable (2024, 3, 28)" "representable (2024, 3, 29)"
  "representable (2024, 4, 1)" "representable (2024, 4, 5)"
  by (simp_all add: representable_def date_eval)

lemma design_back5:
  "shiftable taskDesign (- 5)" "shifted taskDesign (- 5) = taskDesignBack5"
  by (simp_all add: shiftable_def shifted_def taskDesign_def taskDesignBack5_def read_samples
      calendar_samples plus_samples representable_samples del: print_date.simps)
    (simp_all only: print_samples)

lemma design_far:
  "\<not> shiftable taskDesign 100000000"
  "shiftDates zoneUTC taskDesign 100000000 = Inl (RangeError ''Invalid time value'')"
proof -
  have v: "valid_date (2024, 3, 10)" by (simp add: days_in_month_def)
  have "day_number (plus_days (2024, 3, 10) 100000000) = day_number (2024, 3, 10) + 100000000"
    by (rule plus_days_number(1)[OF v])
  then have "\<not> representable (plus_days (2024, 3, 10) 100000000)"
    by (simp add: representable_def date_eval)
  then show n: "\<not> shiftable taskDesign 100000000"
    by (simp add: shiftable_def taskDesign_def read_samples)
  have "calendar_date (start taskDesign)" "calendar_date (end' taskDesign)"
    by (simp_all add: taskDesign_def calendar_samples)
  then show "shiftDates zoneUTC taskDesign 100000000 = Inl (RangeError ''Invalid time value'')"
    using n by (simp add: shiftDates_eq)
qed

section \<open>What applyIntent leaves of the plan\<close>

lemma shiftDates_design_back5: "shiftDates zoneUTC taskDesign (- 5) = Inr taskDesignBack5"
proof -
  have "calendar_date (start taskDesign)" "calendar_date (end' taskDesign)"
    by (simp_all add: taskDesign_def calendar_samples)
  then show ?thesis by (simp add: shiftDates_eq design_back5)
qed

lemma intentChanges_design_back5:
  "intentChanges zoneUTC rnd [taskDesign] (shift_task_dates ''Design'' 5 backward)
     = Inr [update ''t1'' taskDesign taskDesignBack5]"
proof -
  have "findByName [taskDesign] ''Design'' = Some taskDesign"
    by (simp add: findByName_def taskDesign_def lower_samples)
  moreover have "shiftDates zoneUTC taskDesign (- 5) = Inr taskDesignBack5"
    by (rule shiftDates_design_back5)
  moreover have "id' taskDesign = ''t1''" by (simp add: taskDesign_def)
  ultimately show ?thesis by (simp add: intentChanges_def)
qed

lemma nextTasks_design_back5:
  "nextTasks [taskDesign] [update ''t1'' taskDesign taskDesignBack5] = [taskDesignBack5]"
  by (simp add: nextTasks_def taskDesign_def)

lemma taskDesign_moved: "taskDesignBack5 \<noteq> taskDesign"
  by (simp add: taskDesign_def taskDesignBack5_def)

lemma applyIntent_failure_plan:
  "snd (applyIntent tz rnd p i) = Inl e \<Longrightarrow> applyIntent tz rnd p i = (p, Inl e)"
  by (auto simp: applyIntent_def split: sum.splits)

lemma applyIntent_outcome: "snd (applyIntent_part_000 tz rnd p i) = snd (applyIntent tz rnd p i)"
  by (simp add: applyIntent_def applyIntent_part_000_def Let_def split: sum.splits)

text \<open>
  C1, as stated: whenever \<^verbatim>\<open>applyIntent\<close> succeeds, \<^verbatim>\<open>plan.tasks\<close> is after the call what
  the caller passed in. The function of \<^verbatim>\<open>backend/src/lib/plan.ts\<close> does otherwise:
  shifting the task "Design" back by five days succeeds and leaves the plan holding the
  shifted task.
\<close>

theorem applyIntent_changes_plan_tasks:
  "snd (applyIntent zoneUTC '''' \<lparr>tasks = [taskDesign]\<rparr> (shift_task_dates ''Design'' 5 backward))
     = Inr \<lparr>changes = [update ''t1'' taskDesign taskDesignBack5]\<rparr>
   \<and> tasks (fst (applyIntent zoneUTC '''' \<lparr>tasks = [taskDesign]\<rparr> (shift_task_dates ''Design'' 5 backward)))
     \<noteq> tasks \<lparr>tasks = [taskDesign]\<rparr>"
  using taskDesign_moved
  by (simp add: applyIntent_def intentChanges_design_back5 nextTasks_design_back5)

text \<open>
  C1, amended: whenever \<^verbatim>\<open>applyIntent\<close> succeeds with a diff, in any time zone, the function of
  \<^verbatim>\<open>backend/src/lib/plan.ts\<close> leaves the plan with \<^verbatim>\<open>plan.tasks\<close> set to the projection of
  that diff on the tasks passed in (every task with an update record replaced, in its
  place, by the after-task; created tasks appended) and every other field as it was; the
  function of \<^verbatim>\<open>src/unnamed/part_000\<close> returns the same diff and leaves the plan as it
  was passed in.
\<close>

theorem applyIntent_success_plan:
  assumes "snd (applyIntent tz rnd p i) = Inr d"
  shows "fst (applyIntent tz rnd p i) = p\<lparr>tasks := nextTasks (tasks p) (changes d)\<rparr>
    \<and> applyIntent_part_000 tz rnd p i = (p, Inr d)"
  using assms
  by (auto simp: applyIntent_def applyIntent_part_000_def Let_def split: sum.splits)

theorem applyIntent_success_plan_witness:
  "fst (applyIntent zoneUTC '''' \<lparr>tasks = [taskDesign]\<rparr> (shift_task_dates ''Design'' 5 backward))
     = \<lparr>tasks = [taskDesignBack5]\<rparr>
   \<and> applyIntent_part_000 zoneUTC '''' \<lparr>tasks = [taskDesign]\<rparr> (shift_task_dates ''Design'' 5 backward)
     = (\<lparr>tasks = [taskDesign]\<rparr>, Inr \<lparr>changes = [update ''t1'' taskDesign taskDesignBack5]\<rparr>)"
proof -
  have s: "snd (applyIntent zoneUTC '''' \<lparr>tasks = [taskDesign]\<rparr> (shift_task_dates ''Design'' 5 backward))
      = Inr \<lparr>changes = [update ''t1'' taskDesign taskDesignBack5]\<rparr>"
    by (simp add: applyIntent_def intentChanges_design_back5)
  show ?thesis
    using applyIntent_success_plan[OF s] by (simp add: nextTasks_design_back5)
qed

text \<open>
  C2: whenever \<^verbatim>\<open>applyIntent\<close> fails, in any time zone and whatever the error (the three "not found" errors
  and the \<^verbatim>\<open>RangeError\<close> of an unparseable or unrepresentable date alike), the call
  returns the error and nothing else: the plan is left exactly as it was passed in and
  there is no diff. This holds for both versions of the function.
\<close>

theorem applyIntent_failure_leaves_plan:
  assumes "snd (applyIntent tz rnd p i) = Inl e"
  shows "applyIntent tz rnd p i = (p, Inl e) \<and> applyIntent_part_000 tz rnd p i = (p, Inl e)"
  using assms
  by (auto simp: applyIntent_def applyIntent_part_000_def Let_def split: sum.splits)

theorem applyIntent_failure_leaves_plan_witness:
  "applyIntent zoneUTC '''' \<lparr>tasks = [taskDesign]\<rparr> (shift_task_dates ''Nonexistent'' 5 forward)
     = (\<lparr>tasks = [taskDesign]\<rparr>, Inl (Error ''Task not found: Nonexistent''))
   \<and> applyIntent_part_000 zoneUTC '''' \<lparr>tasks = [taskDesign]\<rparr> (shift_task_dates ''Nonexistent'' 5 forward)
     = (\<lparr>tasks = [taskDesign]\<rparr>, Inl (Error ''Task not found: Nonexistent''))"
proof -
  have "findByName [taskDesign] ''Nonexistent'' = None"
    by (simp add: findByName_def taskDesign_def lower_samples)
  then have s: "snd (applyIntent zoneUTC '''' \<lparr>tasks = [taskDesign]\<rparr>
      (shift_task_dates ''Nonexistent'' 5 forward)) = Inl (Error ''Task not found: Nonexistent'')"
    by (simp add: applyIntent_def intentChanges_def)
  show ?thesis
    using applyIntent_failure_leaves_plan[OF s] by simp
qed

section \<open>The rules of the dispatcher\<close>

lemma applyIntent_snd:
  "snd (applyIntent tz rnd p i) =
     (case intentChanges tz rnd (tasks p) i of Inl e \<Rightarrow> Inl e | Inr cs \<Rightarrow> Inr \<lparr>changes = cs\<rparr>)"
  by (simp add: applyIntent_def split: sum.splits)

text \<open>
  C3, as stated: for every plan and every \<^verbatim>\<open>shift_task_dates\<close> intent whose target
  matches a task, the diff holds exactly one update record. With a shift of
  100,000,000 days forward on the task "Design" (2024-03-10 to 2024-03-20) the target
  matches, and the call throws \<^verbatim>\<open>RangeError: Invalid time value\<close> instead: the shifted
  date is beyond what a \<^verbatim>\<open>Date\<close> can hold.
\<close>

theorem shift_task_dates_out_of_range:
  "toLowerCase (name taskDesign) = toLowerCase ''Design''
   \<and> snd (applyIntent zoneUTC '''' \<lparr>tasks = [taskDesign]\<rparr> (shift_task_dates ''Design'' 100000000 forward))
     = Inl (RangeError ''Invalid time value'')"
proof -
  have f: "findByName [taskDesign] ''Design'' = Some taskDesign"
    by (simp add: findByName_def taskDesign_def lower_samples)
  have "shiftDates zoneUTC taskDesign 100000000 = Inl (RangeError ''Invalid time value'')"
    by (rule design_far(2))
  moreover have "toLowerCase (name taskDesign) = toLowerCase ''Design''"
    by (simp add: taskDesign_def)
  ultimately show ?thesis
    using f by (simp add: applyIntent_snd intentChanges_def)
qed

text \<open>
  C3, amended: for every plan and every \<^verbatim>\<open>shift_task_dates\<close> intent: if no task's name
  equals the target case-insensitively, \<^verbatim>\<open>applyIntent\<close> fails with
  \<^verbatim>\<open>Error("Task not found: <target>")\<close> and leaves the plan as it was, in every time
  zone. Otherwise, in the zone UTC, let \<open>t\<close>
  be the first task in plan order whose name equals the target case-insensitively,
  with well-formed calendar dates as start and end, and let the effective delta be
  \<open>+delta_days\<close> for mode forward and \<open>-delta_days\<close> for mode backward. If both dates
  shifted by the effective delta are representable as a \<^verbatim>\<open>Date\<close> (within 100,000,000
  days of 1970-01-01), the diff holds exactly one update record, of the id of \<open>t\<close>, with
  \<open>t\<close> as before-task and as after-task \<open>t\<close> with start and end shifted by the effective
  delta in calendar days; if not, \<^verbatim>\<open>applyIntent\<close> fails with
  \<^verbatim>\<open>RangeError("Invalid time value")\<close>.
\<close>

theorem shift_task_dates_rule:
  "((\<forall>u\<in>set (tasks p). toLowerCase (name u) \<noteq> toLowerCase target) \<longrightarrow>
      applyIntent tz rnd p (shift_task_dates target n m)
        = (p, Inl (Error (''Task not found: '' @ target))))
   \<and> (tasks p = pre @ t # post
        \<and> (\<forall>u\<in>set pre. toLowerCase (name u) \<noteq> toLowerCase target)
        \<and> toLowerCase (name t) = toLowerCase target
        \<and> calendar_date (start t) \<and> calendar_date (end' t) \<longrightarrow>
      snd (applyIntent zoneUTC rnd p (shift_task_dates target n m))
        = (if representable (plus_days (read_date (start t)) (if m = forward then n else - n))
              \<and> representable (plus_days (read_date (end' t)) (if m = forward then n else - n))
           then Inr \<lparr>changes = [update (id' t) t (shifted t (if m = forward then n else - n))]\<rparr>
           else Inl (RangeError ''Invalid time value'')))"
proof (intro conjI impI)
  assume "\<forall>u\<in>set (tasks p). toLowerCase (name u) \<noteq> toLowerCase target"
  then have "findByName (tasks p) target = None" by (simp add: findByName_None)
  then show "applyIntent tz rnd p (shift_task_dates target n m)
      = (p, Inl (Error (''Task not found: '' @ target)))"
    by (simp add: applyIntent_def intentChanges_def)
next
  assume a: "tasks p = pre @ t # post
      \<and> (\<forall>u\<in>set pre. toLowerCase (name u) \<noteq> toLowerCase target)
      \<and> toLowerCase (name t) = toLowerCase target
      \<and> calendar_date (start t) \<and> calendar_date (end' t)"
  then have "findByName (tasks p) target = Some t" by (simp add: findByName_first)
  then show "snd (applyIntent zoneUTC rnd p (shift_task_dates target n m))
      = (if representable (plus_days (read_date (start t)) (if m = forward then n else - n))
            \<and> representable (plus_days (read_date (end' t)) (if m = forward then n else - n))
         then Inr \<lparr>changes = [update (id' t) t (shifted t (if m = forward then n else - n))]\<rparr>
         else Inl (RangeError ''Invalid time value''))"
    using a by (auto simp: applyIntent_snd intentChanges_def shiftDates_eq shiftable_def Let_def)
qed

theorem shift_task_dates_rule_witness:
  "applyIntent zoneUTC '''' \<lparr>tasks = [taskDesign]\<rparr> (shift_task_dates ''Nonexistent'' 5 backward)
     = (\<lparr>tasks = [taskDesign]\<rparr>, Inl (Error ''Task not found: Nonexistent''))
   \<and> snd (applyIntent zoneUTC '''' \<lparr>tasks = [taskDesign]\<rparr> (shift_task_dates ''design'' 5 backward))
     = Inr \<lparr>changes = [update ''t1'' taskDesign taskDesignBack5]\<rparr>"
proof -
  have a: "\<forall>u\<in>set (tasks \<lparr>tasks = [taskDesign]\<rparr>). toLowerCase (name u) \<noteq> toLowerCase ''Nonexistent''"
    by (simp add: taskDesign_def lower_samples)
  have b: "tasks \<lparr>tasks = [taskDesign]\<rparr> = [] @ taskDesign # []
      \<and> (\<forall>u\<in>set []. toLowerCase (name u) \<noteq> toLowerCase ''design'')
      \<and> toLowerCase (name taskDesign) = toLowerCase ''design''
      \<and> calendar_date (start taskDesign) \<and> calendar_date (end' taskDesign)"
    using design_back5(1) by (simp add: taskDesign_def lower_samples shiftable_def)
  have i: "id' taskDesign = ''t1''" by (simp add: taskDesign_def)
  have r: "representable (plus_days (read_date (start taskDesign)) (- 5))"
    "representable (plus_days (read_date (end' taskDesign)) (- 5))"
    using design_back5(1) by (simp_all add: shiftable_def)
  show ?thesis
    using shift_task_dates_rule[of "\<lparr>tasks = [taskDesign]\<rparr>" "''Nonexistent''" zoneUTC "''''"
        5 backward "[]" taskDesign "[]"] a
      shift_task_dates_rule[of "\<lparr>tasks = [taskDesign]\<rparr>" "''design''" zoneUTC "''''"
        5 backward "[]" taskDesign "[]"] b r
    by (simp add: design_back5 i)
qed


lemma move_milestone_outcome:
  assumes "findByName (tasks p) target = Some t"
  shows "snd (applyIntent tz rnd p (move_milestone target to_date)) =
     (case formatISO tz (addDays tz (parseISO tz to_date) (map_option (max 0) (durationDays tz t))) of
        Inl e \<Rightarrow> Inl e
      | Inr e' \<Rightarrow> Inr \<lparr>changes = [update (id' t) t (t\<lparr>start := to_date, end' := e'\<rparr>)]\<rparr>)"
  using assms by (simp add: applyIntent_snd intentChanges_def split: sum.splits)

lemma spring_new_york:
  "parseISO zoneNewYork ''2024-03-09'' = Some 1709960400000"
  "parseISO zoneNewYork ''2024-03-11'' = Some 1710129600000"
  "parseISO zoneNewYork ''2024-06-01'' = Some 1717214400000"
  "durationDays zoneNewYork taskSpring = Some (47 / 24)"
proof -
  show p: "parseISO zoneNewYork ''2024-03-09'' = Some 1709960400000"
    "parseISO zoneNewYork ''2024-03-11'' = Some 1710129600000"
    "parseISO zoneNewYork ''2024-06-01'' = Some 1717214400000"
    by (simp_all add: parse_eval string_eval method_eval date_eval time_eval zone_eval)
  show "durationDays zoneNewYork taskSpring = Some (47 / 24)"
    by (simp add: durationDays_def taskSpring_def p)
qed

lemma move_spring_new_york:
  "snd (applyIntent zoneNewYork '''' \<lparr>tasks = [taskSpring]\<rparr> (move_milestone ''Spring'' ''2024-06-01''))
     = Inr \<lparr>changes = [update ''t8'' taskSpring
         (taskSpring\<lparr>start := ''2024-06-01'', end' := ''2024-06-02''\<rparr>)]\<rparr>"
proof -
  have f: "findByName (tasks \<lparr>tasks = [taskSpring]\<rparr>) ''Spring'' = Some taskSpring"
    by (simp add: findByName_def taskSpring_def)
  note p = spring_new_york(1-3)
  have d: "durationDays zoneNewYork taskSpring = Some (47 / 24)"
    by (rule spring_new_york(4))
  have a: "addDays zoneNewYork (Some 1717214400000) (Some (47 / 24)) = Some 1717300800000"
  proof (rule addDays_eval)
    show "(47 / 24 :: rat) \<noteq> 0" by simp
    show "of_int (DateFromTime (LocalTime zoneNewYork 1717214400000)) + 47 / 24 = (71 / 24 :: rat)"
      by (simp add: zone_eval date_eval time_eval)
    show "setDate zoneNewYork (Some 1717214400000) (71 / 24) = Some 1717300800000"
    proof (rule setDate_eval)
      show "LocalTime zoneNewYork 1717214400000 = 1717200000000" by (simp add: zone_eval)
      show "MakeDay (YearFromTime 1717200000000) (MonthFromTime 1717200000000)
          (ToIntegerOrInfinity (71 / 24)) = 19876"
        by (simp add: date_eval time_eval)
      show "UTC zoneNewYork (MakeDate 19876 (TimeWithinDay 1717200000000)) = 1717300800000"
        by (simp add: zone_eval time_eval)
      show "TimeClip (of_int 1717300800000) = Some 1717300800000"
        by (simp add: time_eval)
    qed
  qed
  have "formatISO zoneNewYork (Some 1717300800000) = Inr (''2024'' @ ''-'' @ ''06'' @ ''-'' @ ''02'')"
  proof (rule formatISO_eval)
    show "LocalTime zoneNewYork 1717300800000 = 1717286400000" by (simp add: zone_eval)
  qed (simp_all add: date_eval time_eval print_eval)
  moreover have "id' taskSpring = ''t8''" by (simp add: taskSpring_def)
  ultimately show ?thesis
    unfolding move_milestone_outcome[OF f]
    by (simp add: p d a)
qed



text \<open>
  The span of the target is computed as the difference of the two local midnights in
  milliseconds, divided by 86,400,000 and not rounded. In a time zone with
  daylight-saving time the quotient is a fraction when the clocks change in between,
  and \<^verbatim>\<open>addDays\<close> drops the fraction. In the zone America/New_York the task "Spring", from
  2024-03-09 to 2024-03-11, lasts two calendar days and 47 hours; moved to 2024-06-01
  it ends on 2024-06-02, one day after its start, where two calendar days lead to
  2024-06-03. The amended claim below leaves the time zones with a change of offset
  aside.
\<close>

lemma move_milestone_across_clock_change:
  "calendar_date (start taskSpring) \<and> calendar_date (end' taskSpring) \<and> calendar_date ''2024-06-01''
   \<and> days_between (read_date (start taskSpring)) (read_date (end' taskSpring)) = 2
   \<and> print_date (plus_days (read_date ''2024-06-01'') 2) = ''2024-06-03''
   \<and> durationDays zoneNewYork taskSpring = Some (47 / 24)
   \<and> snd (applyIntent zoneNewYork '''' \<lparr>tasks = [taskSpring]\<rparr>
         (move_milestone ''Spring'' ''2024-06-01''))
       = Inr \<lparr>changes = [update ''t8'' taskSpring
           (taskSpring\<lparr>start := ''2024-06-01'', end' := ''2024-06-02''\<rparr>)]\<rparr>"
proof -
  have c: "calendar_date (start taskSpring)" "calendar_date (end' taskSpring)"
    "calendar_date ''2024-06-01''"
    by (simp_all add: taskSpring_def calendar_eval)
  have r: "read_date (start taskSpring) = (2024, 3, 9)" "read_date (end' taskSpring) = (2024, 3, 11)"
    by (simp_all add: taskSpring_def calendar_eval)
  have d: "days_between (read_date (start taskSpring)) (read_date (end' taskSpring)) = 2"
    unfolding r by (simp add: days_between_def date_eval)
  have "plus_days (2024, 6, 1) 2 = (2024, 6, 3)"
    by (simp add: plus_eval)
  moreover have "print_date (2024, 6, 3) = ''2024-06-03''"
    by (simp add: print_eval)
  ultimately have e: "print_date (plus_days (read_date ''2024-06-01'') 2) = ''2024-06-03''"
    by (simp add: read_samples del: print_date.simps)
  show ?thesis
    using c d e spring_new_york move_spring_new_york by simp
qed



lemma shift_phase_no_match:
  assumes "filter (\<lambda>t. str_includes (toLowerCase (name t)) (toLowerCase target)) (tasks p) = []"
  shows "applyIntent tz rnd p (shift_phase target n)
    = (p, Inl (Error (''No tasks matched phase: '' @ target)))"
  using assms by (simp add: applyIntent_def intentChanges_def Let_def)

lemma shift_phase_outcome:
  assumes "matched = filter (\<lambda>t. str_includes (toLowerCase (name t)) (toLowerCase target)) (tasks p)"
    and "matched \<noteq> []"
    and "\<forall>t\<in>set matched. calendar_date (start t) \<and> calendar_date (end' t)"
  shows "snd (applyIntent zoneUTC rnd p (shift_phase target n)) =
     (if \<forall>t\<in>set matched. shiftable t n
      then Inr \<lparr>changes = map (\<lambda>t. update (id' t) t (shifted t n)) matched\<rparr>
      else Inl (RangeError ''Invalid time value''))"
proof -
  have "snd (applyIntent zoneUTC rnd p (shift_phase target n))
      = (case shiftPhaseTasks zoneUTC matched n of Inl e \<Rightarrow> Inl e | Inr cs \<Rightarrow> Inr \<lparr>changes = cs\<rparr>)"
    using assms(2) unfolding assms(1) by (simp add: applyIntent_snd intentChanges_def Let_def)
  then show ?thesis
    unfolding shiftPhaseTasks_eq[OF assms(3)] by simp
qed

text \<open>
  C5, as stated: the matched set is found with the target trimmed. The planner does not
  trim: with the target "design " (a trailing space) and the single task "UI Design",
  the trimmed target is a substring of the lowercase name, so the task is in the claim's
  matched set, while \<^verbatim>\<open>applyIntent\<close> finds no match and fails.
\<close>

theorem shift_phase_does_not_trim:
  "str_includes (toLowerCase (name taskUIDesign)) (toLowerCase (trim_spec ''design ''))
   \<and> snd (applyIntent zoneUTC '''' \<lparr>tasks = [taskUIDesign]\<rparr> (shift_phase ''design '' 7))
     = Inl (Error ''No tasks matched phase: design '')"
proof -
  have t: "trim_spec ''design '' = ''design''"
    by code_simp
  have a: "str_includes ''ui design'' ''design''" "\<not> str_includes ''ui design'' ''design ''"
    by code_simp+
  have n: "toLowerCase (name taskUIDesign) = ''ui design''"
    by (simp add: taskUIDesign_def lower_samples)
  have "filter (\<lambda>t. str_includes (toLowerCase (name t)) (toLowerCase ''design ''))
      (tasks \<lparr>tasks = [taskUIDesign]\<rparr>) = []"
    by (simp add: n a lower_samples)
  then show ?thesis
    using shift_phase_no_match[of "''design ''" "\<lparr>tasks = [taskUIDesign]\<rparr>" zoneUTC "''''" 7]
    by (simp add: t n a lower_samples)
qed

text \<open>
  C5, amended: for every plan and every \<^verbatim>\<open>shift_phase\<close> intent: the matched set is
  exactly the tasks whose lowercase name contains the lowercase form of the target as a
  substring; the target is not trimmed. If that set is empty, \<^verbatim>\<open>applyIntent\<close> fails with
  \<^verbatim>\<open>Error("No tasks matched phase: <target>")\<close> and leaves the plan as it was, in every
  time zone. Otherwise, in the zone UTC,
  the matched tasks having well-formed calendar dates as start and end: if for every
  matched task both dates shifted by \<^verbatim>\<open>delta_days\<close> are representable as a \<^verbatim>\<open>Date\<close>, the
  diff holds exactly one update record per matched task, in plan order, each
  after-task being the matched task with start and end shifted by \<^verbatim>\<open>delta_days\<close>
  calendar days; if not, \<^verbatim>\<open>applyIntent\<close> fails with \<^verbatim>\<open>RangeError("Invalid time value")\<close>.
\<close>

theorem shift_phase_rule:
  assumes "matched = filter (\<lambda>t. \<exists>a b. toLowerCase (name t) = a @ toLowerCase target @ b) (tasks p)"
  shows "(matched = [] \<longrightarrow>
      applyIntent tz rnd p (shift_phase target n)
        = (p, Inl (Error (''No tasks matched phase: '' @ target))))
    \<and> (matched \<noteq> [] \<and> (\<forall>t\<in>set matched. calendar_date (start t) \<and> calendar_date (end' t)) \<longrightarrow>
      snd (applyIntent zoneUTC rnd p (shift_phase target n))
        = (if \<forall>t\<in>set matched. representable (plus_days (read_date (start t)) n)
                \<and> representable (plus_days (read_date (end' t)) n)
           then Inr \<lparr>changes = map (\<lambda>t. update (id' t) t (shifted t n)) matched\<rparr>
           else Inl (RangeError ''Invalid time value'')))"
proof -
  have m: "matched = filter (\<lambda>t. str_includes (toLowerCase (name t)) (toLowerCase target)) (tasks p)"
    unfolding assms str_includes_iff ..
  have o: "snd (applyIntent zoneUTC rnd p (shift_phase target n))
      = (if \<forall>t\<in>set matched. shiftable t n
         then Inr \<lparr>changes = map (\<lambda>t. update (id' t) t (shifted t n)) matched\<rparr>
         else Inl (RangeError ''Invalid time value''))"
    if "matched \<noteq> []" "\<forall>t\<in>set matched. calendar_date (start t) \<and> calendar_date (end' t)"
    using shift_phase_outcome[OF m that] .
  have e: "matched = [] \<longrightarrow> applyIntent tz rnd p (shift_phase target n)
      = (p, Inl (Error (''No tasks matched phase: '' @ target)))"
    using shift_phase_no_match[of target p tz rnd n] m by simp
  have s: "(\<forall>t\<in>set matched. shiftable t n) =
      (\<forall>t\<in>set matched. representable (plus_days (read_date (start t)) n)
          \<and> representable (plus_days (read_date (end' t)) n))"
    if "\<forall>t\<in>set matched. calendar_date (start t) \<and> calendar_date (end' t)"
    using that by (auto simp: shiftable_def)
  show ?thesis using e o s by auto
qed

lemma review_ui_plus7:
  "shiftable taskDesignReview 7" "shiftable taskUIDesign 7"
  "shifted taskDesignReview 7 = taskDesignReview\<lparr>start := ''2024-03-28'', end' := ''2024-03-29''\<rparr>"
  "shifted taskUIDesign 7 = taskUIDesign\<lparr>start := ''2024-04-01'', end' := ''2024-04-05''\<rparr>"
  by (simp_all add: shiftable_def shifted_def taskDesignReview_def taskUIDesign_def read_samples
      calendar_samples plus_samples representable_samples del: print_date.simps)
    (simp_all only: print_samples)

theorem shift_phase_rule_witness:
  "snd (applyIntent zoneUTC '''' \<lparr>tasks = [taskDesignReview, taskUIDesign, taskProcurement]\<rparr>
       (shift_phase ''design'' 7))
     = Inr \<lparr>changes =
         [update ''t5'' taskDesignReview
            (taskDesignReview\<lparr>start := ''2024-03-28'', end' := ''2024-03-29''\<rparr>),
          update ''t6'' taskUIDesign
            (taskUIDesign\<lparr>start := ''2024-04-01'', end' := ''2024-04-05''\<rparr>)]\<rparr>"
proof -
  have m: "[taskDesignReview, taskUIDesign]
      = filter (\<lambda>t. \<exists>a b. toLowerCase (name t) = a @ toLowerCase ''design'' @ b)
          (tasks \<lparr>tasks = [taskDesignReview, taskUIDesign, taskProcurement]\<rparr>)"
  proof -
    have "str_includes ''design review'' ''design''" "str_includes ''ui design'' ''design''"
      "\<not> str_includes ''procurement'' ''design''"
      by code_simp+
    then show ?thesis
      unfolding str_includes_iff[symmetric]
      by (simp add: taskDesignReview_def taskUIDesign_def taskProcurement_def lower_samples)
  qed
  have i: "id' taskDesignReview = ''t5''" "id' taskUIDesign = ''t6''"
    by (simp_all add: taskDesignReview_def taskUIDesign_def)
  show ?thesis
    using shift_phase_rule[OF m, of zoneUTC "''''" 7] review_ui_plus7(1,2)
    by (simp add: review_ui_plus7 i shiftable_def)
qed

text \<open>
  C6, as stated: the created task's id is not equal to any existing task id in the plan.
  The id is \<^verbatim>\<open>t_\<close> followed by the characters drawn from \<^verbatim>\<open>Math.random()\<close>, and it is not
  compared with the ids in the plan: when the draw is \<^verbatim>\<open>k3x9a2f\<close> and the plan already
  holds a task with the id \<^verbatim>\<open>t_k3x9a2f\<close>, the created task has that same id.
\<close>

theorem create_task_id_collides:
  "applyIntent zoneUTC ''k3x9a2f'' \<lparr>tasks = [taskCreated]\<rparr>
       (create_task ''Kickoff'' ''2024-04-01'' ''2024-04-10'' None None)
     = (\<lparr>tasks = [taskCreated, taskCreated\<lparr>name := ''Kickoff''\<rparr>]\<rparr>,
        Inr \<lparr>changes = [create (taskCreated\<lparr>name := ''Kickoff''\<rparr>)]\<rparr>)
   \<and> id' (taskCreated\<lparr>name := ''Kickoff''\<rparr>) = id' taskCreated"
  by (simp add: applyIntent_def intentChanges_def nextTasks_def taskCreated_def)

text \<open>
  C6, amended: for every plan and every \<^verbatim>\<open>create_task\<close> intent: \<^verbatim>\<open>applyIntent\<close> emits exactly
  one create record and no update record; the created task's name, start, end,
  dependsOn and assignee are exactly those of the intent, with nothing filled in and
  nothing validated; its id is \<^verbatim>\<open>t_\<close> followed by the (up to seven) characters drawn from
  the random number generator, with no check against the ids in the plan. The function
  of \<^verbatim>\<open>lib/plan.ts\<close> leaves the plan with the created task appended at the end.
\<close>

theorem create_task_rule:
  "applyIntent tz rnd p (create_task n s e deps a)
     = (p\<lparr>tasks := tasks p @ [\<lparr>id' = ''t_'' @ rnd, name = n, start = s, end' = e,
                                 dependsOn = deps, assignee = a\<rparr>]\<rparr>,
        Inr \<lparr>changes = [create \<lparr>id' = ''t_'' @ rnd, name = n, start = s, end' = e,
                                  dependsOn = deps, assignee = a\<rparr>]\<rparr>)"
  by (simp add: applyIntent_def intentChanges_def nextTasks_def)

theorem create_task_rule_witness:
  "applyIntent zoneUTC ''k3x9a2f'' \<lparr>tasks = [taskDesign]\<rparr>
       (create_task ''Procurement'' ''2024-04-01'' ''2024-04-10'' None None)
     = (\<lparr>tasks = [taskDesign, taskCreated]\<rparr>, Inr \<lparr>changes = [create taskCreated]\<rparr>)"
  using create_task_rule[of zoneUTC "''k3x9a2f''" "\<lparr>tasks = [taskDesign]\<rparr>" "''Procurement''"
      "''2024-04-01''" "''2024-04-10''" None None]
  by (simp add: taskCreated_def)

section \<open>Calendar arithmetic of shiftDates\<close>

text \<open>The theorems of this section are stated for the zone UTC.\<close>

text \<open>
  C7, as stated: for every task with well-formed dates and every integer \<open>d\<close>,
  \<^verbatim>\<open>shiftDates\<close> returns the shifted task. A \<^verbatim>\<open>Date\<close> holds no day further than
  100,000,000 days from 1970-01-01: shifting the task "Design" (2024-03-10 to
  2024-03-20) by 100,000,000 days returns nothing, \<^verbatim>\<open>formatISO\<close> throws
  \<^verbatim>\<open>RangeError: Invalid time value\<close>.
\<close>

theorem shiftDates_out_of_range:
  "calendar_date (start taskDesign) \<and> calendar_date (end' taskDesign)
   \<and> shiftDates zoneUTC taskDesign 100000000 = Inl (RangeError ''Invalid time value'')"
proof -
  have "shiftDates zoneUTC taskDesign 100000000 = Inl (RangeError ''Invalid time value'')"
    by (rule design_far(2))
  moreover have "calendar_date (start taskDesign)" "calendar_date (end' taskDesign)"
    by (simp_all add: taskDesign_def calendar_samples)
  ultimately show ?thesis by simp
qed

text \<open>
  C7, amended: for every task \<open>T\<close> whose start and end are well-formed ISO calendar dates
  (\<^verbatim>\<open>YYYY-MM-DD\<close>) and every integer \<open>d\<close> such that both dates shifted by \<open>d\<close> calendar days
  are representable as a \<^verbatim>\<open>Date\<close> (at most 100,000,000 days from 1970-01-01):
  \<^verbatim>\<open>shiftDates(T, d)\<close> returns a copy of \<open>T\<close> whose start is \<open>T\<close>'s start plus \<open>d\<close> calendar
  days and whose end is \<open>T\<close>'s end plus \<open>d\<close> calendar days, exactly, by the calendar's own
  day-after and day-before steps (month lengths, year ends, leap years), printed as
  \<^verbatim>\<open>formatISO\<close> prints a date. For any other \<open>d\<close> it throws
  \<^verbatim>\<open>RangeError("Invalid time value")\<close>.
\<close>

theorem shiftDates_adds_calendar_days:
  assumes "calendar_date (start T)" and "calendar_date (end' T)"
  shows "shiftDates zoneUTC T d =
     (if representable (plus_days (read_date (start T)) d)
         \<and> representable (plus_days (read_date (end' T)) d)
      then Inr (T\<lparr>start := print_date (plus_days (read_date (start T)) d),
                 end' := print_date (plus_days (read_date (end' T)) d)\<rparr>)
      else Inl (RangeError ''Invalid time value''))"
  using assms by (simp add: shiftDates_eq shiftable_def shifted_def)

theorem shiftDates_adds_calendar_days_witness:
  "shiftDates zoneUTC taskWinter 1 = Inr (taskWinter\<lparr>start := ''2024-02-01'', end' := ''2024-02-29''\<rparr>)"
proof -
  have t: "start taskWinter = ''2024-01-31''" "end' taskWinter = ''2024-02-28''"
    by (simp_all add: taskWinter_def)
  have c: "calendar_date (start taskWinter)" "calendar_date (end' taskWinter)"
    by (simp_all add: t calendar_samples)
  have "shiftDates zoneUTC taskWinter 1 =
     (if representable (plus_days (read_date (start taskWinter)) 1)
         \<and> representable (plus_days (read_date (end' taskWinter)) 1)
      then Inr (taskWinter\<lparr>start := print_date (plus_days (read_date (start taskWinter)) 1),
                 end' := print_date (plus_days (read_date (end' taskWinter)) 1)\<rparr>)
      else Inl (RangeError ''Invalid time value''))"
    by (rule shiftDates_adds_calendar_days[OF c])
  then show ?thesis
    unfolding t read_samples plus_samples print_samples using representable_samples by simp
qed

text \<open>
  C8, as stated: for every task with well-formed dates and every integer \<open>d\<close>, shifting
  by \<open>d\<close> and then by \<open>-d\<close> gives the task back. Beyond the year 9999 \<^verbatim>\<open>formatISO\<close>
  prints a year of five digits, which \<^verbatim>\<open>parseISO\<close> does not read: the task "Last"
  (9999-12-31 to 9999-12-31) shifted by one day starts on \<^verbatim>\<open>10000-01-01\<close>, and shifting
  that task back by one day throws \<^verbatim>\<open>RangeError: Invalid time value\<close>.
\<close>

theorem shiftDates_roundtrip_fails_after_9999:
  "calendar_date (start taskLast) \<and> calendar_date (end' taskLast)
   \<and> shiftDates zoneUTC taskLast 1
       = Inr (taskLast\<lparr>start := ''10000-01-01'', end' := ''10000-01-01''\<rparr>)
   \<and> shiftDates zoneUTC (taskLast\<lparr>start := ''10000-01-01'', end' := ''10000-01-01''\<rparr>) (- 1)
       = Inl (RangeError ''Invalid time value'')"
proof -
  have t: "start taskLast = ''9999-12-31''" "end' taskLast = ''9999-12-31''"
    by (simp_all add: taskLast_def)
  have c: "calendar_date (start taskLast)" "calendar_date (end' taskLast)"
    by (simp_all add: t calendar_samples)
  have "shiftable taskLast 1"
    by (simp add: shiftable_def t c[unfolded t] read_samples plus_samples representable_samples)
  moreover have "shifted taskLast 1 = taskLast\<lparr>start := ''10000-01-01'', end' := ''10000-01-01''\<rparr>"
    unfolding shifted_def t read_samples plus_samples print_samples ..
  ultimately have f: "shiftDates zoneUTC taskLast 1
      = Inr (taskLast\<lparr>start := ''10000-01-01'', end' := ''10000-01-01''\<rparr>)"
    using c by (simp add: shiftDates_eq)
  have b: "shiftDates zoneUTC (taskLast\<lparr>start := ''10000-01-01'', end' := ''10000-01-01''\<rparr>) (- 1)
      = Inl (RangeError ''Invalid time value'')"
    by (simp add: shiftDates_def parseISO_rejects addDays_None formatISO_None)
  show ?thesis using c f b by simp
qed

text \<open>
  C8, amended: for every task \<open>T\<close> whose start and end are well-formed ISO calendar dates:
  \<^verbatim>\<open>shiftDates(T, 0)\<close> equals \<open>T\<close>; and for every integer \<open>d\<close> such that both dates shifted
  by \<open>d\<close> calendar days lie in the years 0 to 9999 (the years \<^verbatim>\<open>YYYY-MM-DD\<close> can write),
  \<^verbatim>\<open>shiftDates(shiftDates(T, d), -d)\<close> equals \<open>T\<close>, and the day-span between end and start
  of \<^verbatim>\<open>shiftDates(T, d)\<close> equals the day-span of \<open>T\<close>.
\<close>

theorem shiftDates_identity_roundtrip_duration:
  assumes "calendar_date (start T)" and "calendar_date (end' T)"
  shows "shiftDates zoneUTC T 0 = Inr T
    \<and> (year4 (plus_days (read_date (start T)) d) \<and> year4 (plus_days (read_date (end' T)) d)
        \<longrightarrow> shiftDates zoneUTC T d = Inr (shifted T d)
            \<and> shiftDates zoneUTC (shifted T d) (- d) = Inr T
            \<and> durationDays zoneUTC (shifted T d) = durationDays zoneUTC T)"
proof (intro conjI impI)
  show "shiftDates zoneUTC T 0 = Inr T"
    using shift_zero[OF assms] assms by (simp add: shiftDates_eq)
next
  assume y: "year4 (plus_days (read_date (start T)) d) \<and> year4 (plus_days (read_date (end' T)) d)"
  note r = shift_roundtrip[OF assms conjunct1[OF y] conjunct2[OF y]]
  show "shiftDates zoneUTC T d = Inr (shifted T d)"
    using r(1) assms by (simp add: shiftDates_eq)
  have "calendar_date (start (shifted T d))" "calendar_date (end' (shifted T d))"
    using r(2) by (simp_all add: shiftable_def)
  then show "shiftDates zoneUTC (shifted T d) (- d) = Inr T"
    using r(2,3) by (simp add: shiftDates_eq)
  show "durationDays zoneUTC (shifted T d) = durationDays zoneUTC T"
    by (rule r(4))
qed

theorem shiftDates_identity_roundtrip_duration_witness:
  "shiftDates zoneUTC taskDesign 0 = Inr taskDesign
   \<and> shiftDates zoneUTC taskDesign (- 5) = Inr taskDesignBack5
   \<and> shiftDates zoneUTC taskDesignBack5 (- (- 5)) = Inr taskDesign
   \<and> durationDays zoneUTC taskDesignBack5 = durationDays zoneUTC taskDesign"
proof -
  have t: "start taskDesign = ''2024-03-10''" "end' taskDesign = ''2024-03-20''"
    by (simp_all add: taskDesign_def)
  have c: "calendar_date (start taskDesign)" "calendar_date (end' taskDesign)"
    by (simp_all add: t calendar_samples)
  have y: "year4 (plus_days (read_date (start taskDesign)) (- 5))"
    "year4 (plus_days (read_date (end' taskDesign)) (- 5))"
    unfolding t read_samples plus_samples by (simp_all add: year4_def)
  show ?thesis
    using shiftDates_identity_roundtrip_duration[OF c, of "- 5"] y
    by (simp add: design_back5)
qed

section \<open>Update records and the empty phase\<close>

lemma intentChanges_frame:
  assumes "intentChanges tz rnd ts i = Inr cs" and "c \<in> set cs" and "is_update c"
  shows "id' (after c) = id' (before c) \<and> name (after c) = name (before c)
    \<and> dependsOn (after c) = dependsOn (before c) \<and> assignee (after c) = assignee (before c)"
proof (cases i)
  case (shift_task_dates target n m)
  then show ?thesis
    using assms
    by (auto simp: intentChanges_def Let_def split: option.splits sum.splits
        dest: shiftDates_frame)
next
  case (extend_task target n)
  then show ?thesis
    using assms by (auto simp: intentChanges_def split: option.splits sum.splits)
next
  case (create_task n s e deps a)
  then show ?thesis
    using assms by (auto simp: intentChanges_def)
next
  case (move_milestone target to_date)
  then show ?thesis
    using assms by (auto simp: intentChanges_def Let_def split: option.splits sum.splits)
next
  case (shift_phase target n)
  then have "shiftPhaseTasks tz
      (filter (\<lambda>t. str_includes (toLowerCase (name t)) (toLowerCase target)) ts) n = Inr cs"
    using assms(1) by (simp add: intentChanges_def Let_def split: if_splits)
  then show ?thesis
    using shiftPhaseTasks_frame[OF _ assms(2)] by simp
qed

text \<open>
  C9: for every plan and every intent on which \<^verbatim>\<open>applyIntent\<close> succeeds (the four
  updating actions \<^verbatim>\<open>shift_task_dates\<close>, \<^verbatim>\<open>extend_task\<close>, \<^verbatim>\<open>move_milestone\<close> and
  \<^verbatim>\<open>shift_phase\<close> among them), every update record of the returned diff has an after-task
  whose id, name, dependsOn and assignee are those of its before-task: only start and
  end can differ.
\<close>

theorem update_keeps_identity:
  assumes "snd (applyIntent tz rnd p i) = Inr d" and "c \<in> set (changes d)" and "is_update c"
  shows "id' (after c) = id' (before c) \<and> name (after c) = name (before c)
    \<and> dependsOn (after c) = dependsOn (before c) \<and> assignee (after c) = assignee (before c)"
proof -
  obtain cs where cs: "intentChanges tz rnd (tasks p) i = Inr cs" and d: "d = \<lparr>changes = cs\<rparr>"
    using assms(1) by (auto simp: applyIntent_snd split: sum.splits)
  show ?thesis
    using intentChanges_frame[OF cs _ assms(3)] assms(2) by (simp add: d)
qed

theorem update_keeps_identity_witness:
  "id' (after (update ''t1'' taskDesign taskDesignBack5))
      = id' (before (update ''t1'' taskDesign taskDesignBack5))
   \<and> name (after (update ''t1'' taskDesign taskDesignBack5))
      = name (before (update ''t1'' taskDesign taskDesignBack5))
   \<and> dependsOn (after (update ''t1'' taskDesign taskDesignBack5))
      = dependsOn (before (update ''t1'' taskDesign taskDesignBack5))
   \<and> assignee (after (update ''t1'' taskDesign taskDesignBack5))
      = assignee (before (update ''t1'' taskDesign taskDesignBack5))"
proof -
  have s: "snd (applyIntent zoneUTC '''' \<lparr>tasks = [taskDesign]\<rparr> (shift_task_dates ''Design'' 5 backward))
      = Inr \<lparr>changes = [update ''t1'' taskDesign taskDesignBack5]\<rparr>"
    by (simp add: applyIntent_def intentChanges_design_back5)
  have m: "update ''t1'' taskDesign taskDesignBack5
      \<in> set (changes \<lparr>changes = [update ''t1'' taskDesign taskDesignBack5]\<rparr>)"
    by simp
  have u: "is_update (update ''t1'' taskDesign taskDesignBack5)"
    by simp
  show ?thesis
    by (rule update_keeps_identity[OF s m u])
qed

text \<open>
  C10, as stated: with an empty target and a non-empty plan the diff holds one update
  record per task, for every integer \<open>d\<close>. With \<open>d\<close> = 100,000,000 days and the single
  task "Design" no diff is returned: the call throws \<^verbatim>\<open>RangeError: Invalid time value\<close>.
\<close>

theorem shift_phase_empty_target_out_of_range:
  "tasks \<lparr>tasks = [taskDesign]\<rparr> \<noteq> []
   \<and> snd (applyIntent zoneUTC '''' \<lparr>tasks = [taskDesign]\<rparr> (shift_phase '''' 100000000))
     = Inl (RangeError ''Invalid time value'')"
proof -
  have "shiftDates zoneUTC taskDesign 100000000 = Inl (RangeError ''Invalid time value'')"
    by (rule design_far(2))
  then show ?thesis
    by (simp add: applyIntent_snd intentChanges_def lower_samples str_includes_empty)
qed

text \<open>
  C10, amended: for every plan whose task list is non-empty and every integer \<open>d\<close>,
  \<^verbatim>\<open>applyIntent\<close> with a \<^verbatim>\<open>shift_phase\<close> intent whose target is the empty string does not
  fail with a "not found" error, in any time zone: the empty string is a substring of
  every name, so every task is matched. In the zone UTC, the tasks having well-formed
  calendar dates as start and end: if for
  every task both dates shifted by \<open>d\<close> are representable as a \<^verbatim>\<open>Date\<close>, the diff holds
  exactly one update record per task, in plan order, each shifted by \<open>d\<close> calendar days;
  if not, the call fails with \<^verbatim>\<open>RangeError("Invalid time value")\<close>.
\<close>

theorem shift_phase_empty_target:
  assumes "tasks p \<noteq> []"
  shows "(\<forall>msg. snd (applyIntent tz rnd p (shift_phase '''' d)) \<noteq> Inl (Error msg))
    \<and> ((\<forall>t\<in>set (tasks p). calendar_date (start t) \<and> calendar_date (end' t)) \<longrightarrow>
      snd (applyIntent zoneUTC rnd p (shift_phase '''' d))
        = (if \<forall>t\<in>set (tasks p). representable (plus_days (read_date (start t)) d)
                \<and> representable (plus_days (read_date (end' t)) d)
           then Inr \<lparr>changes = map (\<lambda>t. update (id' t) t (shifted t d)) (tasks p)\<rparr>
           else Inl (RangeError ''Invalid time value'')))"
proof -
  have m: "tasks p = filter (\<lambda>t. str_includes (toLowerCase (name t)) (toLowerCase '''')) (tasks p)"
    by (simp add: toLowerCase_def str_includes_empty)
  have "snd (applyIntent tz rnd p (shift_phase '''' d))
      = (case shiftPhaseTasks tz (tasks p) d of Inl e \<Rightarrow> Inl e | Inr cs \<Rightarrow> Inr \<lparr>changes = cs\<rparr>)"
    using assms m[symmetric] by (simp add: applyIntent_snd intentChanges_def Let_def)
  then have n: "\<forall>msg. snd (applyIntent tz rnd p (shift_phase '''' d)) \<noteq> Inl (Error msg)"
    by (auto split: sum.splits dest: shiftPhaseTasks_error)
  have o: "snd (applyIntent zoneUTC rnd p (shift_phase '''' d))
      = (if \<forall>t\<in>set (tasks p). shiftable t d
         then Inr \<lparr>changes = map (\<lambda>t. update (id' t) t (shifted t d)) (tasks p)\<rparr>
         else Inl (RangeError ''Invalid time value''))"
    if "\<forall>t\<in>set (tasks p). calendar_date (start t) \<and> calendar_date (end' t)"
    using shift_phase_outcome[OF m assms that] .
  have s: "(\<forall>t\<in>set (tasks p). shiftable t d) =
      (\<forall>t\<in>set (tasks p). representable (plus_days (read_date (start t)) d)
          \<and> representable (plus_days (read_date (end' t)) d))"
    if "\<forall>t\<in>set (tasks p). calendar_date (start t) \<and> calendar_date (end' t)"
    using that by (auto simp: shiftable_def)
  show ?thesis using n o s by auto
qed

theorem shift_phase_empty_target_witness:
  "snd (applyIntent zoneUTC '''' \<lparr>tasks = [taskDesignReview, taskUIDesign]\<rparr> (shift_phase '''' 7))
     = Inr \<lparr>changes =
         [update ''t5'' taskDesignReview
            (taskDesignReview\<lparr>start := ''2024-03-28'', end' := ''2024-03-29''\<rparr>),
          update ''t6'' taskUIDesign
            (taskUIDesign\<lparr>start := ''2024-04-01'', end' := ''2024-04-05''\<rparr>)]\<rparr>"
proof -
  have n: "tasks \<lparr>tasks = [taskDesignReview, taskUIDesign]\<rparr> \<noteq> []"
    by simp
  have i: "id' taskDesignReview = ''t5''" "id' taskUIDesign = ''t6''"
    by (simp_all add: taskDesignReview_def taskUIDesign_def)
  show ?thesis
    using shift_phase_empty_target[OF n, of zoneUTC "''''" 7] review_ui_plus7(1,2)
    by (simp add: review_ui_plus7 i shiftable_def)
qed
end
